theory Spec2Isabelle
  imports Complex_Main
begin

section \<open>Python values, errors and dictionaries\<close>

text \<open>
  The scorer of \<^verbatim>\<open>summarizer/scoring_system.py\<close> receives two dictionaries whose
  values are whatever the fetchers and the JSON of the classifier delivered. The values
  it can meet are modelled by one datatype. A Python \<^verbatim>\<open>float\<close> is the rational number
  that the (finite) binary64 value denotes, and the arithmetic on floats rounds as
  IEEE 754 does; a \<^verbatim>\<open>str\<close> is a list of characters with code points below 256. The
  two infinities, NaN and the sign of zero are not modelled.
\<close>

datatype pyval =
    PNone
  | PBool bool
  | PInt int
  | PFloat rat
  | PStr string
  | PList "pyval list"

datatype error = TypeError | AttributeError | OverflowError | KeyError

type_synonym pydict = "string \<rightharpoonup> pyval"

text \<open>\<^verbatim>\<open>d.get(key, default)\<close>\<close>

definition dict_get :: "pydict \<Rightarrow> string \<Rightarrow> pyval \<Rightarrow> pyval" where
  "dict_get d k dflt = (case d k of None \<Rightarrow> dflt | Some v \<Rightarrow> v)"

text \<open>Sequencing of computations that may raise: the first exception wins.\<close>

definition ebind :: "error + 'a \<Rightarrow> ('a \<Rightarrow> error + 'b) \<Rightarrow> error + 'b" where
  "ebind m f = (case m of Inl e \<Rightarrow> Inl e | Inr x \<Rightarrow> f x)"

section \<open>Binary64 arithmetic\<close>

text \<open>
  Round to the nearest integer, ties to the even one: the rounding of every IEEE 754
  operation (on the significand) and of the decimal conversion behind \<^verbatim>\<open>round\<close>.
\<close>

definition rhe :: "rat \<Rightarrow> int" where
  "rhe x = (let n = \<lfloor>x\<rfloor>; r = x - of_int n in
     if r < 1 / 2 then n else if 1 / 2 < r then n + 1 else if even n then n else n + 1)"

text \<open>The binary exponent \<open>e\<close> of a positive number: \<open>2 ^ e \<le> x < 2 ^ (e + 1)\<close>.\<close>

function bexp_up :: "rat \<Rightarrow> int" where
  "bexp_up x = (if 2 \<le> x then bexp_up (x / 2) + 1 else 0)"
  by pat_completeness auto
termination
proof (relation "measure (\<lambda>x. nat \<lfloor>x\<rfloor>)")
  show "wf (measure (\<lambda>x::rat. nat \<lfloor>x\<rfloor>))" by simp
next
  fix x :: rat assume "2 \<le> x"
  then have "\<lfloor>x / 2\<rfloor> < \<lfloor>x\<rfloor>" by linarith
  moreover have "0 < \<lfloor>x\<rfloor>" using \<open>2 \<le> x\<close> by linarith
  ultimately show "(x / 2, x) \<in> measure (\<lambda>x. nat \<lfloor>x\<rfloor>)" by simp
qed

function bexp_down :: "rat \<Rightarrow> int" where
  "bexp_down x = (if 0 < x \<and> x < 1 then bexp_down (2 * x) - 1 else 0)"
  by pat_completeness auto
termination
proof (relation "measure (\<lambda>x. nat \<lfloor>1 / x\<rfloor>)")
  show "wf (measure (\<lambda>x::rat. nat \<lfloor>1 / x\<rfloor>))" by simp
next
  fix x :: rat assume a: "0 < x \<and> x < 1"
  define y where "y = 1 / x"
  from a have "1 < y" by (simp add: y_def)
  then have c: "1 \<le> \<lfloor>y\<rfloor>" by linarith
  then have "(1::rat) \<le> of_int \<lfloor>y\<rfloor>" by linarith
  moreover have "y < of_int \<lfloor>y\<rfloor> + 1" by linarith
  ultimately have "y / 2 < of_int \<lfloor>y\<rfloor>" by linarith
  then have d: "\<lfloor>y / 2\<rfloor> < \<lfloor>y\<rfloor>" by (simp add: floor_less_iff)
  have e: "1 / (2 * x) = y / 2" by (simp add: y_def)
  have "\<lfloor>1 / (2 * x)\<rfloor> < \<lfloor>1 / x\<rfloor>" unfolding e using d by (simp add: y_def)
  then show "(2 * x, x) \<in> measure (\<lambda>x. nat \<lfloor>1 / x\<rfloor>)" using c by (simp add: y_def)
qed

definition bexp :: "rat \<Rightarrow> int" where
  "bexp x = (if 1 \<le> x then bexp_up x else bexp_down x)"

text \<open>
  The spacing of the doubles around \<open>x\<close>: 53 significant bits, and the fixed spacing
  \<open>2 ^ (-1074)\<close> of the subnormal range below \<open>2 ^ (-1022)\<close>.
\<close>

definition ulp :: "rat \<Rightarrow> rat" where
  "ulp x = 2 powi (max (bexp \<bar>x\<bar>) (- 1022) - 52)"

text \<open>
  \<open>fl x\<close> is the double nearest to \<open>x\<close> (ties to even). A float literal \<^verbatim>\<open>0.15\<close> denotes
  \<open>fl (15 / 100)\<close>, and each arithmetic operation on doubles returns \<open>fl\<close> of the exact
  result.
\<close>

definition fl :: "rat \<Rightarrow> rat" where
  "fl x = of_int (rhe (x / ulp x)) * ulp x"

definition float_add :: "rat \<Rightarrow> rat \<Rightarrow> rat" where
  "float_add x y = fl (x + y)"

definition float_sub :: "rat \<Rightarrow> rat \<Rightarrow> rat" where
  "float_sub x y = fl (x - y)"

definition float_mul :: "rat \<Rightarrow> rat \<Rightarrow> rat" where
  "float_mul x y = fl (x * y)"

text \<open>
  Conversion of an \<^verbatim>\<open>int\<close> operand of a mixed operation: correctly rounded, and
  \<^verbatim>\<open>OverflowError\<close> ("int too large to convert to float") beyond the double range.
\<close>

definition float_of_int :: "int \<Rightarrow> error + rat" where
  "float_of_int n =
     (if 2 ^ 1024 \<le> \<bar>fl (of_int n)\<bar> then Inl OverflowError else Inr (fl (of_int n)))"

text \<open>\<^verbatim>\<open>v * w\<close> for a float \<open>w\<close>: \<^verbatim>\<open>bool\<close> is a subclass of \<^verbatim>\<open>int\<close>.\<close>

fun py_mul :: "pyval \<Rightarrow> rat \<Rightarrow> error + rat" where
  "py_mul (PFloat x) w = Inr (float_mul x w)"
| "py_mul (PInt n) w = ebind (float_of_int n) (\<lambda>x. Inr (float_mul x w))"
| "py_mul (PBool b) w = Inr (float_mul (of_bool b) w)"
| "py_mul PNone w = Inl TypeError"
| "py_mul (PStr s) w = Inl TypeError"
| "py_mul (PList l) w = Inl TypeError"

text \<open>\<^verbatim>\<open>v >= k\<close> for an integer literal \<open>k\<close>; numbers compare by value, anything else raises.\<close>

fun py_ge :: "pyval \<Rightarrow> int \<Rightarrow> error + bool" where
  "py_ge (PInt n) k = Inr (k \<le> n)"
| "py_ge (PBool b) k = Inr (k \<le> of_bool b)"
| "py_ge (PFloat x) k = Inr (of_int k \<le> x)"
| "py_ge PNone k = Inl TypeError"
| "py_ge (PStr s) k = Inl TypeError"
| "py_ge (PList l) k = Inl TypeError"

text \<open>
  \<^verbatim>\<open>round(x, ndigits)\<close> of a finite float, \<open>ndigits \<ge> 0\<close>: the exact value is rounded to
  \<open>ndigits\<close> decimal places, half to even, and the decimal is converted back to the
  nearest double.
\<close>

definition py_round :: "rat \<Rightarrow> nat \<Rightarrow> rat" where
  "py_round x ndigits = fl (of_int (rhe (x * 10 ^ ndigits)) / 10 ^ ndigits)"

text \<open>
  \<^verbatim>\<open>sum\<close> over floats, starting from the integer \<^verbatim>\<open>0\<close>. Up to CPython 3.11 it adds from
  left to right. From CPython 3.12 on it also accumulates Neumaier's compensation
  term \<open>c\<close> and adds it at the end when it is not zero.
\<close>

datatype interpreter = Before_3_12 | Since_3_12

fun neumaier_step :: "rat \<times> rat \<Rightarrow> rat \<Rightarrow> rat \<times> rat" where
  "neumaier_step (f_result, c) x =
     (let t = float_add f_result x in
      if \<bar>f_result\<bar> \<ge> \<bar>x\<bar>
      then (t, float_add c (float_add (float_sub f_result t) x))
      else (t, float_add c (float_add (float_sub x t) f_result)))"

fun py_sum :: "interpreter \<Rightarrow> rat list \<Rightarrow> rat" where
  "py_sum ver [] = 0"
| "py_sum Before_3_12 (x # xs) = foldl float_add (float_add 0 x) xs"
| "py_sum Since_3_12 (x # xs) =
     (case foldl neumaier_step (float_add 0 x, 0) xs of
        (f_result, c) \<Rightarrow> if c \<noteq> 0 then float_add f_result c else f_result)"

section \<open>Strings\<close>

text \<open>\<^verbatim>\<open>str.lower\<close> on code points below 256: A-Z and the Latin-1 capitals.\<close>

definition lower_char :: "char \<Rightarrow> char" where
  "lower_char c = (let n = (of_char c :: nat) in
     if (65 \<le> n \<and> n \<le> 90) \<or> (192 \<le> n \<and> n \<le> 222 \<and> n \<noteq> 215)
     then char_of (n + 32) else c)"

definition lower :: "string \<Rightarrow> string" where
  "lower s = map lower_char s"

fun starts_with :: "string \<Rightarrow> string \<Rightarrow> bool" where
  "starts_with [] s = True"
| "starts_with (p # ps) [] = False"
| "starts_with (p # ps) (c # cs) = (p = c \<and> starts_with ps cs)"

text \<open>\<^verbatim>\<open>sub in s\<close> on strings: \<open>sub\<close> occurs in \<open>s\<close> as a contiguous substring.\<close>

fun str_in :: "string \<Rightarrow> string \<Rightarrow> bool" where
  "str_in sub [] = (sub = [])"
| "str_in sub (c # cs) = (starts_with sub (c # cs) \<or> str_in sub cs)"

text \<open>\<^verbatim>\<open>v.lower()\<close>: only a \<^verbatim>\<open>str\<close> has the method.\<close>

fun py_lower :: "pyval \<Rightarrow> error + string" where
  "py_lower (PStr s) = Inr (lower s)"
| "py_lower v = Inl AttributeError"

text \<open>Iteration: a list yields its elements, a string its characters.\<close>

fun py_iter :: "pyval \<Rightarrow> error + pyval list" where
  "py_iter (PList l) = Inr l"
| "py_iter (PStr s) = Inr (map (\<lambda>c. PStr [c]) s)"
| "py_iter v = Inl TypeError"

fun py_len :: "pyval \<Rightarrow> error + nat" where
  "py_len (PList l) = Inr (length l)"
| "py_len (PStr s) = Inr (length s)"
| "py_len v = Inl TypeError"

text \<open>Truth value of an object, as tested by \<^verbatim>\<open>if authors\<close>.\<close>

fun truthy :: "pyval \<Rightarrow> bool" where
  "truthy PNone = False"
| "truthy (PBool b) = b"
| "truthy (PInt n) = (n \<noteq> 0)"
| "truthy (PFloat x) = (x \<noteq> 0)"
| "truthy (PStr s) = (s \<noteq> [])"
| "truthy (PList l) = (l \<noteq> [])"

text \<open>The strings of a list, with the separator between neighbours.\<close>

fun join :: "string \<Rightarrow> string list \<Rightarrow> string" where
  "join sep [] = []"
| "join sep [s] = s"
| "join sep (s # t # ts) = s @ sep @ join sep (t # ts)"

text \<open>\<^verbatim>\<open>sep.join(v)\<close>: every element must be a \<^verbatim>\<open>str\<close>.\<close>

fun join_strs :: "string \<Rightarrow> pyval list \<Rightarrow> error + string" where
  "join_strs sep [] = Inr []"
| "join_strs sep [PStr s] = Inr s"
| "join_strs sep (PStr s # v # vs) =
     (case join_strs sep (v # vs) of Inl e \<Rightarrow> Inl e | Inr rest \<Rightarrow> Inr (s @ sep @ rest))"
| "join_strs sep (v # vs) = Inl TypeError"

definition py_join :: "string \<Rightarrow> pyval \<Rightarrow> error + string" where
  "py_join sep v = ebind (py_iter v) (join_strs sep)"

section \<open>The scorer\<close>

text \<open>The tables of \<^verbatim>\<open>ComprehensiveScorer.__init__\<close>; \<open>weights\<close> in its insertion order.\<close>

definition weights :: "(string \<times> rat) list" where
  "weights =
    [(''popularity'', fl (25 / 100)),
     (''technical_innovation'', fl (20 / 100)),
     (''application_value'', fl (10 / 100)),
     (''readability'', fl (15 / 100)),
     (''experimental_thoroughness'', fl (15 / 100)),
     (''author_influence'', fl (15 / 100))]"

definition influential_orgs :: "string list" where
  "influential_orgs =
    [''google'', ''microsoft'', ''meta'', ''openai'', ''anthropic'', ''deepmind'',
     ''stanford'', ''mit'', ''berkeley'', ''cmu'', ''harvard'', ''oxford'', ''cambridge'',
     ''nvidia'', ''huggingface'', ''salesforce'', ''adobe'', ''ibm'', ''amazon'',
     ''tsinghua'', ''peking'', ''tencent'', ''baidu'', ''alibaba'']"

definition top_conferences :: "string list" where
  "top_conferences =
    [''icml'', ''neurips'', ''iclr'', ''aaai'', ''ijcai'', ''acl'', ''emnlp'', ''naacl'',
     ''cvpr'', ''iccv'', ''eccv'', ''kdd'', ''www'', ''sigir'', ''wsdm'', ''icse'', ''fse'']"

subsection \<open>Popularity\<close>

text \<open>The \<^verbatim>\<open>if stars >= ... elif ...\<close> chain of the \<^verbatim>\<open>github\<close> branch.\<close>

definition github_popularity :: "pyval \<Rightarrow> error + rat" where
  "github_popularity stars =
     ebind (py_ge stars 10000) (\<lambda>c. if c then Inr 10 else
     ebind (py_ge stars 5000) (\<lambda>c. if c then Inr 9 else
     ebind (py_ge stars 1000) (\<lambda>c. if c then Inr 8 else
     ebind (py_ge stars 500) (\<lambda>c. if c then Inr 7 else
     ebind (py_ge stars 100) (\<lambda>c. if c then Inr 6 else
     ebind (py_ge stars 50) (\<lambda>c. if c then Inr 5 else
     ebind (py_ge stars 10) (\<lambda>c. if c then Inr 4 else Inr 3)))))))"

text \<open>\<^verbatim>\<open>for conf in self.top_conferences: if conf in abstract or conf in title: ... break\<close>\<close>

fun conference_loop :: "string list \<Rightarrow> string \<Rightarrow> string \<Rightarrow> int" where
  "conference_loop [] abstract title = 0"
| "conference_loop (conf # confs) abstract title =
     (if str_in conf abstract \<or> str_in conf title then 2
      else conference_loop confs abstract title)"

text \<open>\<^verbatim>\<open>'cs.AI' in cat or 'cs.LG' in cat\<close>: substring of a string, member of a list.\<close>

fun category_match :: "pyval \<Rightarrow> error + bool" where
  "category_match (PStr s) = Inr (str_in ''cs.AI'' s \<or> str_in ''cs.LG'' s)"
| "category_match (PList l) = Inr (PStr ''cs.AI'' \<in> set l \<or> PStr ''cs.LG'' \<in> set l)"
| "category_match v = Inl TypeError"

text \<open>\<^verbatim>\<open>any(... for cat in categories)\<close> stops at the first true element.\<close>

fun any_category :: "pyval list \<Rightarrow> error + bool" where
  "any_category [] = Inr False"
| "any_category (cat # cats) =
     (case category_match cat of
        Inl e \<Rightarrow> Inl e
      | Inr b \<Rightarrow> if b then Inr True else any_category cats)"

definition arxiv_popularity :: "pydict \<Rightarrow> error + rat" where
  "arxiv_popularity item =
     ebind (py_lower (dict_get item ''abstract'' (PStr ''''))) (\<lambda>abstract.
     ebind (py_lower (dict_get item ''title'' (PStr ''''))) (\<lambda>title.
     let conference_score = conference_loop top_conferences abstract title;
         base_score = float_add 5 (of_int conference_score)
     in ebind (py_iter (dict_get item ''categories'' (PList []))) (\<lambda>categories.
        ebind (any_category categories) (\<lambda>found.
        let base_score = (if found then float_add base_score 1 else base_score)
        in Inr (min base_score 10)))))"

definition calculate_popularity_score :: "pydict \<Rightarrow> error + rat" where
  "calculate_popularity_score item =
     (let source = dict_get item ''source'' (PStr ''unknown'') in
      if source = PStr ''github'' then github_popularity (dict_get item ''stars'' (PInt 0))
      else if source = PStr ''arxiv'' then arxiv_popularity item
      else Inr 5)"

subsection \<open>Author influence\<close>

text \<open>\<^verbatim>\<open>for org in self.influential_orgs: if org in author_text: score += 2; break\<close>\<close>

fun author_org_loop :: "string list \<Rightarrow> string \<Rightarrow> rat \<Rightarrow> rat" where
  "author_org_loop [] author_text score = score"
| "author_org_loop (org # orgs) author_text score =
     (if str_in org author_text then float_add score 2
      else author_org_loop orgs author_text score)"

text \<open>\<^verbatim>\<open>for org in self.influential_orgs: if org in url or org in description: ...\<close>\<close>

fun repo_org_loop :: "string list \<Rightarrow> string \<Rightarrow> string \<Rightarrow> rat \<Rightarrow> rat" where
  "repo_org_loop [] url description score = score"
| "repo_org_loop (org # orgs) url description score =
     (if str_in org url \<or> str_in org description then float_add score 2
      else repo_org_loop orgs url description score)"

definition arxiv_author_influence :: "pydict \<Rightarrow> rat \<Rightarrow> error + rat" where
  "arxiv_author_influence item score =
     (let authors = dict_get item ''authors'' (PList []) in
      ebind (if truthy authors
             then ebind (py_join '' '' authors) (\<lambda>s. Inr (lower s))
             else Inr '''') (\<lambda>author_text.
      let score = author_org_loop influential_orgs author_text score
      in ebind (py_len authors) (\<lambda>n.
         Inr (if 5 \<le> n then float_add score 1
              else if 3 \<le> n then float_add score (fl (5 / 10))
              else score))))"

definition github_author_influence :: "pydict \<Rightarrow> rat \<Rightarrow> error + rat" where
  "github_author_influence item score =
     ebind (py_lower (dict_get item ''url'' (PStr ''''))) (\<lambda>url.
     ebind (py_lower (dict_get item ''description'' (PStr ''''))) (\<lambda>description.
     let score = repo_org_loop influential_orgs url description score
     in ebind (py_ge (dict_get item ''stars'' (PInt 0)) 1000) (\<lambda>c.
        Inr (if c then float_add score 1 else score))))"

definition calculate_author_influence_score :: "pydict \<Rightarrow> error + rat" where
  "calculate_author_influence_score item =
     (let source = dict_get item ''source'' (PStr ''unknown'');
          score = 5
      in ebind (if source = PStr ''arxiv'' then arxiv_author_influence item score
                else if source = PStr ''github'' then github_author_influence item score
                else Inr score) (\<lambda>score. Inr (min score 10)))"

subsection \<open>The weighted combination\<close>

record score_result =
  individual_scores :: pydict
  final_score :: rat
  score_breakdown :: "string \<rightharpoonup> rat"

text \<open>The terms \<^verbatim>\<open>scores[key] * self.weights[key]\<close>, in the order of the weight table.\<close>

fun weighted_terms :: "pydict \<Rightarrow> (string \<times> rat) list \<Rightarrow> error + (string \<times> rat) list" where
  "weighted_terms scores [] = Inr []"
| "weighted_terms scores ((key, w) # rest) =
     (case scores key of
        None \<Rightarrow> Inl KeyError
      | Some v \<Rightarrow>
          (case py_mul v w of
             Inl e \<Rightarrow> Inl e
           | Inr p \<Rightarrow>
               (case weighted_terms scores rest of
                  Inl e \<Rightarrow> Inl e
                | Inr ps \<Rightarrow> Inr ((key, p) # ps))))"

definition calculate_comprehensive_score ::
    "interpreter \<Rightarrow> pydict \<Rightarrow> pydict \<Rightarrow> error + score_result" where
  "calculate_comprehensive_score ver item llm_scores =
     ebind (calculate_popularity_score item) (\<lambda>popularity.
     let scores =
       [''popularity'' \<mapsto> PFloat popularity,
        ''technical_innovation'' \<mapsto> dict_get llm_scores ''technical_innovation'' (PFloat 5),
        ''application_value'' \<mapsto> dict_get llm_scores ''application_value'' (PFloat 5),
        ''readability'' \<mapsto> dict_get llm_scores ''readability'' (PFloat 5),
        ''experimental_thoroughness'' \<mapsto>
           dict_get llm_scores ''experimental_thoroughness'' (PFloat 5)]
     in ebind (calculate_author_influence_score item) (\<lambda>author_influence.
     let scores = scores(''author_influence'' \<mapsto> PFloat author_influence)
     in ebind (weighted_terms scores weights) (\<lambda>terms.
        Inr \<lparr>individual_scores = scores,
             final_score = py_round (py_sum ver (map snd terms)) 2,
             score_breakdown = map_of (map (\<lambda>(key, p). (key, py_round p 2)) terms)\<rparr>)))"

text \<open>The bundle that \<^verbatim>\<open>_create_fallback_summary\<close> of the summarizer passes.\<close>

definition fallback_scoring :: pydict where
  "fallback_scoring =
    [''technical_innovation'' \<mapsto> PFloat 5,
     ''application_value'' \<mapsto> PFloat 5,
     ''readability'' \<mapsto> PFloat 5,
     ''experimental_thoroughness'' \<mapsto> PFloat 5]"

text \<open>The four dimensions read from the bundle of the classifier.\<close>

definition subjective_dimensions :: "string list" where
  "subjective_dimensions =
    [''technical_innovation'', ''application_value'', ''readability'',
     ''experimental_thoroughness'']"

section \<open>Well-typed inputs\<close>

text \<open>
  The types the data model gives to the fields the scorer reads: a field is missing or
  holds a value of its type. Only the fields read on the path of the item's kind count:
  URL, description and star count for \<^verbatim>\<open>github\<close>; abstract, title, categories and
  authors for \<^verbatim>\<open>arxiv\<close>; none for any other kind.
\<close>

fun is_str :: "pyval \<Rightarrow> bool" where
  "is_str (PStr s) = True"
| "is_str v = False"

fun is_int :: "pyval \<Rightarrow> bool" where
  "is_int (PInt n) = True"
| "is_int v = False"

fun is_str_list :: "pyval \<Rightarrow> bool" where
  "is_str_list (PList l) = list_all is_str l"
| "is_str_list v = False"

definition field_ok :: "(pyval \<Rightarrow> bool) \<Rightarrow> pydict \<Rightarrow> string \<Rightarrow> bool" where
  "field_ok P d key = (case d key of None \<Rightarrow> True | Some v \<Rightarrow> P v)"

definition well_typed_item :: "pydict \<Rightarrow> bool" where
  "well_typed_item item =
     (let source = dict_get item ''source'' (PStr ''unknown'') in
      if source = PStr ''github'' then
        field_ok is_str item ''url'' \<and> field_ok is_str item ''description'' \<and>
        field_ok is_int item ''stars''
      else if source = PStr ''arxiv'' then
        field_ok is_str item ''abstract'' \<and> field_ok is_str item ''title'' \<and>
        field_ok is_str_list item ''categories'' \<and> field_ok is_str_list item ''authors''
      else True)"

text \<open>
  A bundle value is a number that converts to a float: a float, a boolean, or an
  integer whose conversion does not overflow (the condition under which
  \<open>float_of_int\<close> returns).
\<close>

fun is_number :: "pyval \<Rightarrow> bool" where
  "is_number (PFloat x) = True"
| "is_number (PInt n) = (\<bar>fl (of_int n)\<bar> < 2 ^ 1024)"
| "is_number (PBool b) = True"
| "is_number v = False"

definition well_typed_bundle :: "pydict \<Rightarrow> bool" where
  "well_typed_bundle llm_scores \<longleftrightarrow>
     (\<forall>key\<in>set subjective_dimensions. field_ok is_number llm_scores key)"

section \<open>Example items\<close>

definition repository :: "int \<Rightarrow> pydict" where
  "repository n = [''source'' \<mapsto> PStr ''github'', ''stars'' \<mapsto> PInt n]"

text \<open>A bundle with one value far above the scale.\<close>

definition overrated :: pydict where
  "overrated = [''technical_innovation'' \<mapsto> PFloat 100]"

text \<open>A paper and a repository like those of \<^verbatim>\<open>test_scoring_system.py\<close>.\<close>

definition paper_title :: string where
  "paper_title = ''Advanced Code Generation with Large Language Models''"

definition paper_abstract :: string where
  "paper_abstract = ''This paper presents novel techniques for automated code generation.''"

definition paper_authors :: "string list" where
  "paper_authors = [''John Doe'', ''Jane Smith (Stanford University)'', ''Alice Johnson'']"

definition paper :: pydict where
  "paper =
    [''source'' \<mapsto> PStr ''arxiv'',
     ''title'' \<mapsto> PStr paper_title,
     ''abstract'' \<mapsto> PStr paper_abstract,
     ''authors'' \<mapsto> PList (map PStr paper_authors),
     ''categories'' \<mapsto> PList (map PStr [''cs.AI'', ''cs.SE''])]"

definition vscode_url :: string where
  "vscode_url = ''https://github.com/microsoft/vscode''"

definition vscode_description :: string where
  "vscode_description = ''A lightweight but powerful source code editor.''"

definition vscode :: pydict where
  "vscode =
    [''source'' \<mapsto> PStr ''github'',
     ''title'' \<mapsto> PStr ''Visual Studio Code'',
     ''description'' \<mapsto> PStr vscode_description,
     ''stars'' \<mapsto> PInt 160000,
     ''url'' \<mapsto> PStr vscode_url]"

text \<open>A repository whose star count arrived as text, and the bundle of the test.\<close>

definition malformed_repository :: pydict where
  "malformed_repository = [''source'' \<mapsto> PStr ''github'', ''stars'' \<mapsto> PStr ''1.2k'']"

definition github_llm_scores :: pydict where
  "github_llm_scores =
    [''technical_innovation'' \<mapsto> PFloat (15 / 2),
     ''application_value'' \<mapsto> PFloat (19 / 2),
     ''readability'' \<mapsto> PFloat (17 / 2),
     ''experimental_thoroughness'' \<mapsto> PFloat 6]"

text \<open>A bundle as JSON may deliver it: an integer and a boolean among the values.\<close>

definition json_scores :: pydict where
  "json_scores =
    [''technical_innovation'' \<mapsto> PInt 7,
     ''application_value'' \<mapsto> PFloat (19 / 2),
     ''readability'' \<mapsto> PBool True]"

definition blog_post :: pydict where
  "blog_post = [''source'' \<mapsto> PStr ''blog'', ''title'' \<mapsto> PStr ''Release notes'']"

section \<open>Auxiliary predicates and constants\<close>

text \<open>A dimension value is a number between 0 and 10.\<close>

fun within_0_10 :: "pyval \<Rightarrow> bool" where
  "within_0_10 (PFloat x) = (0 \<le> x \<and> x \<le> 10)"
| "within_0_10 (PInt n) = (0 \<le> n \<and> n \<le> 10)"
| "within_0_10 (PBool b) = True"
| "within_0_10 v = False"

text \<open>Half a unit in the last place of the doubles between 8 and 16.\<close>

definition half_ulp :: rat where
  "half_ulp = 1 / 2 ^ 49"

section \<open>Evaluation rules\<close>

lemma ebind_Inl [simp]: "ebind (Inl e) f = Inl e"
  by (simp add: ebind_def)

lemma ebind_Inr [simp]: "ebind (Inr x) f = f x"
  by (simp add: ebind_def)

lemma floor_rat_numeral_div [simp]:
  "\<lfloor>numeral a / numeral b :: rat\<rfloor> = numeral a div numeral b"
  by (metis floor_divide_of_int_eq of_int_numeral)

lemma ebind_eq_Inr: "ebind m f = Inr y \<longleftrightarrow> (\<exists>x. m = Inr x \<and> f x = Inr y)"
  by (cases m) simp_all

section \<open>Properties of the rounding\<close>

declare bexp_up.simps [simp del] bexp_down.simps [simp del]

lemma rhe_eval:
  "rhe x =
     (if x - of_int \<lfloor>x\<rfloor> < 1 / 2 then \<lfloor>x\<rfloor>
      else if 1 / 2 < x - of_int \<lfloor>x\<rfloor> then \<lfloor>x\<rfloor> + 1
      else if even \<lfloor>x\<rfloor> then \<lfloor>x\<rfloor> else \<lfloor>x\<rfloor> + 1)"
  by (simp add: rhe_def Let_def)

text \<open>The equations that evaluate \<open>fl\<close> on a numeral.\<close>

lemmas fl_eval = fl_def ulp_def bexp_def bexp_up.simps bexp_down.simps rhe_eval
  power_int_minus

text \<open>Rounding to an integer: exact on integers, monotone, at most one half away.\<close>

lemma rhe_of_int [simp]: "rhe (of_int n) = n"
  by (simp add: rhe_def)

lemma rhe_floor: "\<lfloor>x\<rfloor> \<le> rhe x \<and> rhe x \<le> \<lfloor>x\<rfloor> + 1"
  by (simp add: rhe_def Let_def)

lemma rhe_error: "\<bar>of_int (rhe x) - x\<bar> \<le> 1 / 2"
proof -
  have "of_int \<lfloor>x\<rfloor> \<le> x" "x < of_int \<lfloor>x\<rfloor> + 1" by linarith+
  then show ?thesis by (auto simp: rhe_def Let_def)
qed

lemma rhe_mono: assumes "x \<le> y" shows "rhe x \<le> rhe y"
proof (cases "\<lfloor>x\<rfloor> < \<lfloor>y\<rfloor>")
  case True
  then show ?thesis using rhe_floor [of x] rhe_floor [of y] by linarith
next
  case False
  with assms have eq: "\<lfloor>x\<rfloor> = \<lfloor>y\<rfloor>" using floor_mono [of x y] by linarith
  with assms show ?thesis by (auto simp: rhe_def Let_def)
qed

text \<open>The exponent functions compute the binade of their argument.\<close>

lemma bexp_up_bounds:
  "1 \<le> x \<Longrightarrow> 2 powi bexp_up x \<le> x \<and> x < 2 powi (bexp_up x + 1)"
proof (induction x rule: bexp_up.induct)
  case (1 x)
  show ?case
  proof (cases "2 \<le> x")
    case True
    then have "1 \<le> x / 2" by simp
    with "1.IH" True have ih: "2 powi bexp_up (x / 2) \<le> x / 2" "x / 2 < 2 powi (bexp_up (x / 2) + 1)"
      by blast+
    have e: "bexp_up x = bexp_up (x / 2) + 1" using True by (subst bexp_up.simps) simp
    have "(2::rat) powi (bexp_up (x / 2) + 1) = 2 powi bexp_up (x / 2) * 2"
      by (simp add: power_int_add)
    moreover have "(2::rat) powi (bexp_up (x / 2) + 1 + 1) = 2 powi (bexp_up (x / 2) + 1) * 2"
      by (simp add: power_int_add)
    ultimately show ?thesis using ih unfolding e by linarith
  next
    case False
    then have "bexp_up x = 0" by (subst bexp_up.simps) simp
    with False "1.prems" show ?thesis by simp
  qed
qed

lemma bexp_down_bounds:
  "0 < x \<Longrightarrow> x < 1 \<Longrightarrow> 2 powi bexp_down x \<le> x \<and> x < 2 powi (bexp_down x + 1)"
proof (induction x rule: bexp_down.induct)
  case (1 x)
  have e: "bexp_down x = bexp_down (2 * x) - 1" using "1.prems" by (subst bexp_down.simps) simp
  have p1: "(2::rat) powi (bexp_down (2 * x) - 1) * 2 = 2 powi bexp_down (2 * x)"
    by (simp add: power_int_diff)
  have p2: "(2::rat) powi (bexp_down (2 * x) - 1 + 1) * 2 = 2 powi (bexp_down (2 * x) + 1)"
    by (simp add: power_int_add)
  show ?case
  proof (cases "2 * x < 1")
    case True
    with "1.IH" "1.prems" have "2 powi bexp_down (2 * x) \<le> 2 * x"
      "2 * x < 2 powi (bexp_down (2 * x) + 1)" by simp_all
    then show ?thesis unfolding e using p1 p2 by linarith
  next
    case False
    then have "bexp_down (2 * x) = 0" by (subst bexp_down.simps) simp
    with False "1.prems" show ?thesis unfolding e by (simp add: power_int_minus)
  qed
qed

lemma bexp_bounds:
  assumes "0 < x" shows "2 powi bexp x \<le> x \<and> x < 2 powi (bexp x + 1)"
  using assms bexp_up_bounds [of x] bexp_down_bounds [of x] by (simp add: bexp_def)

lemma bexp_le:
  assumes "0 < x" and "x \<le> 2 powi k" shows "bexp x \<le> k"
proof (rule ccontr)
  assume "\<not> bexp x \<le> k"
  then have "k < bexp x" by simp
  then have "(2::rat) powi k < 2 powi bexp x" by (intro power_int_strict_increasing) auto
  with bexp_bounds [OF assms(1)] assms(2) show False by linarith
qed

lemma bexp_mono:
  assumes "0 < x" and "x \<le> y" shows "bexp x \<le> bexp y"
proof -
  have "0 < y" using assms by linarith
  from bexp_bounds [OF this] have "y \<le> 2 powi (bexp y + 1)" by linarith
  with assms have "x \<le> 2 powi (bexp y + 1)" by linarith
  from bexp_le [OF assms(1) this] have "bexp x \<le> bexp y + 1" .
  show ?thesis
  proof (rule ccontr)
    assume "\<not> bexp x \<le> bexp y"
    with \<open>bexp x \<le> bexp y + 1\<close> have "bexp x = bexp y + 1" by linarith
    with bexp_bounds [OF assms(1)] bexp_bounds [OF \<open>0 < y\<close>] assms(2) show False by simp
  qed
qed

lemma two_powi_shift: "k = a + b \<Longrightarrow> (2::rat) powi k = 2 powi a * 2 powi b"
  by (simp add: power_int_add)

lemma ulp_pos [simp]: "0 < ulp x"
  by (simp add: ulp_def)

lemma ulp_nonneg [simp]: "0 \<le> ulp x"
  using ulp_pos [of x] by linarith

lemma ulp_neq_0 [simp]: "ulp x \<noteq> 0"
  using ulp_pos [of x] by linarith

lemma fl_0 [simp]: "fl 0 = 0"
  by (simp add: fl_def rhe_def)

lemma fl_nonneg: assumes "0 \<le> x" shows "0 \<le> fl x"
proof -
  have "0 \<le> x / ulp x" using assms by simp
  then have "rhe 0 \<le> rhe (x / ulp x)" by (rule rhe_mono)
  then have "0 \<le> rhe (x / ulp x)" by (simp add: rhe_def)
  then show ?thesis by (simp add: fl_def)
qed

text \<open>The rounding error of \<open>fl\<close> is at most half a unit in the last place.\<close>

lemma fl_error:
  assumes "\<bar>x\<bar> \<le> 2 powi k" and "- 1022 \<le> k"
  shows "\<bar>fl x - x\<bar> \<le> 2 powi (k - 53)"
proof -
  have "bexp \<bar>x\<bar> \<le> k \<or> x = 0" using bexp_le [of "\<bar>x\<bar>" k] assms(1) by auto
  moreover have "x = 0 \<Longrightarrow> ?thesis" by simp
  moreover have ?thesis if b: "bexp \<bar>x\<bar> \<le> k"
  proof -
    have "max (bexp \<bar>x\<bar>) (- 1022) - 52 \<le> k - 52" using b assms(2) by simp
    then have u: "ulp x \<le> 2 powi (k - 52)" unfolding ulp_def
      by (intro power_int_increasing) auto
    have "fl x - x = ulp x * (of_int (rhe (x / ulp x)) - x / ulp x)"
      by (simp add: fl_def algebra_simps)
    then have "\<bar>fl x - x\<bar> = ulp x * \<bar>of_int (rhe (x / ulp x)) - x / ulp x\<bar>"
      by (simp add: abs_mult)
    also have "\<dots> \<le> ulp x * (1 / 2)"
      by (intro mult_left_mono rhe_error) simp
    also have "\<dots> \<le> 2 powi (k - 52) * (1 / 2)" using u by simp
    also have "\<dots> = 2 powi (k - 53)"
    proof -
      have "(2::rat) powi (k - 52) = 2 powi (k - 53 + 1)" by simp
      also have "\<dots> = 2 powi (k - 53) * 2" by (subst power_int_add) auto
      finally show ?thesis by simp
    qed
    finally show ?thesis .
  qed
  ultimately show ?thesis by blast
qed

text \<open>\<open>fl\<close> stays inside the binade of its argument, hence it is monotone.\<close>

lemma fl_upper:
  assumes "0 < x" shows "fl x \<le> 2 powi (max (bexp x) (- 1022) + 1)"
proof -
  define e where "e = max (bexp x) (- 1022)"
  have u: "ulp x = 2 powi (e - 52)" using assms by (simp add: ulp_def e_def)
  have "x < 2 powi (bexp x + 1)" using bexp_bounds [OF assms] by simp
  also have "\<dots> \<le> 2 powi (e + 1)" by (intro power_int_increasing) (auto simp: e_def)
  finally have "x \<le> 2 powi (e + 1)" by simp
  moreover have p: "(2::rat) powi (e + 1) = 2 powi 53 * 2 powi (e - 52)"
    by (rule two_powi_shift) simp
  ultimately have "x / ulp x \<le> 2 powi 53" unfolding u by (simp add: pos_divide_le_eq)
  then have "x / ulp x \<le> of_int (2 ^ 53)" by simp
  then have "rhe (x / ulp x) \<le> rhe (of_int (2 ^ 53))" by (rule rhe_mono)
  then have "rhe (x / ulp x) \<le> 2 ^ 53" by (simp only: rhe_of_int)
  then have "(of_int (rhe (x / ulp x)) :: rat) \<le> of_int (2 ^ 53)" by (simp only: of_int_le_iff)
  then have "fl x \<le> of_int (2 ^ 53) * ulp x" unfolding fl_def
    by (intro mult_right_mono) auto
  also have "\<dots> = 2 powi (e + 1)" unfolding u p by simp
  finally show ?thesis unfolding e_def .
qed

lemma fl_lower:
  assumes "0 < x" and "- 1022 \<le> bexp x" shows "2 powi bexp x \<le> fl x"
proof -
  have u: "ulp x = 2 powi (bexp x - 52)" using assms by (simp add: ulp_def max_def)
  have p: "(2::rat) powi bexp x = 2 powi 52 * 2 powi (bexp x - 52)"
    by (rule two_powi_shift) simp
  moreover have "2 powi bexp x \<le> x" using bexp_bounds [OF assms(1)] by simp
  ultimately have "2 powi 52 \<le> x / ulp x" unfolding u by (simp add: pos_le_divide_eq)
  then have "of_int (2 ^ 52) \<le> x / ulp x" by simp
  then have "rhe (of_int (2 ^ 52)) \<le> rhe (x / ulp x)" by (rule rhe_mono)
  then have "2 ^ 52 \<le> rhe (x / ulp x)" by (simp only: rhe_of_int)
  then have "(of_int (2 ^ 52) :: rat) \<le> of_int (rhe (x / ulp x))" by (simp only: of_int_le_iff)
  then have "of_int (2 ^ 52) * ulp x \<le> fl x" unfolding fl_def
    by (intro mult_right_mono) auto
  moreover have "of_int (2 ^ 52) * ulp x = 2 powi bexp x" unfolding u
    by (subst p) simp
  ultimately show ?thesis by simp
qed

lemma fl_mono_nonneg:
  assumes "0 \<le> x" and "x \<le> y" shows "fl x \<le> fl y"
proof (cases "x = 0")
  case True
  then show ?thesis using fl_nonneg [of y] assms by simp
next
  case False
  with assms have x: "0 < x" and y: "0 < y" by linarith+
  define ex where "ex = max (bexp x) (- 1022)"
  define ey where "ey = max (bexp y) (- 1022)"
  have le: "ex \<le> ey" using bexp_mono [OF x assms(2)] by (simp add: ex_def ey_def)
  show ?thesis
  proof (cases "ex = ey")
    case True
    then have u: "ulp x = ulp y" using x y by (simp add: ulp_def ex_def ey_def)
    have "x / ulp y \<le> y / ulp y" using assms(2) by (simp add: divide_right_mono)
    then have "rhe (x / ulp y) \<le> rhe (y / ulp y)" by (rule rhe_mono)
    then show ?thesis unfolding fl_def u by (intro mult_right_mono) auto
  next
    case False
    with le have lt: "ex + 1 \<le> ey" by simp
    then have b: "ey = bexp y" "- 1022 \<le> bexp y" by (auto simp: ex_def ey_def)
    have "fl x \<le> 2 powi (ex + 1)" using fl_upper [OF x] by (simp add: ex_def)
    also have "\<dots> \<le> 2 powi ey" using lt by (intro power_int_increasing) auto
    also have "\<dots> \<le> fl y" using fl_lower [OF y b(2)] b(1) by simp
    finally show ?thesis .
  qed
qed

section \<open>Bounds on sums and rounded sums\<close>

lemma half_ulp_pos: "0 < half_ulp"
  by (simp add: half_ulp_def)

lemma half_ulp_small: "1000000 * half_ulp \<le> 1 / 100000"
  by (simp add: half_ulp_def)

lemma fl_error_16: assumes "\<bar>x\<bar> \<le> 16" shows "\<bar>fl x - x\<bar> \<le> half_ulp"
proof -
  have "\<bar>x\<bar> \<le> 2 powi 4" using assms by simp
  from fl_error [OF this] show ?thesis by (simp add: power_int_minus_divide half_ulp_def)
qed

lemma fl_10 [simp]: "fl 10 = 10"
  by (simp add: fl_eval)

text \<open>The four weights as doubles, and the terms they give to a dimension value of 10.\<close>

lemma weights_values:
  "fl (1 / 4) = 1 / 4"
  "fl (1 / 5) = 3602879701896397 / 18014398509481984"
  "fl (1 / 10) = 3602879701896397 / 36028797018963968"
  "fl (3 / 20) = 5404319552844595 / 36028797018963968"
  by (simp_all add: fl_eval)

lemma full_marks:
  "fl (10 * fl (1 / 4)) = 5 / 2"
  "fl (10 * fl (1 / 5)) = 2"
  "fl (10 * fl (1 / 10)) = 1"
  "fl (10 * fl (3 / 20)) = 3 / 2"
  by (simp_all add: fl_eval)

lemma foldl_float_add_bounds:
  assumes "0 \<le> a" and "\<forall>x\<in>set xs. 0 \<le> x"
    and "a + sum_list xs + of_nat (length xs) * half_ulp \<le> 16"
  shows "0 \<le> foldl float_add a xs \<and>
         foldl float_add a xs \<le> a + sum_list xs + of_nat (length xs) * half_ulp"
  using assms
proof (induction xs arbitrary: a)
  case Nil
  then show ?case by simp
next
  case (Cons x xs)
  have x: "0 \<le> x" and xs: "\<forall>y\<in>set xs. 0 \<le> y" using Cons.prems(2) by simp_all
  have s: "0 \<le> sum_list xs" using xs by (simp add: sum_list_nonneg)
  have n: "0 \<le> of_nat (length xs) * half_ulp" using half_ulp_pos by simp
  have b: "a + x + sum_list xs + of_nat (length xs) * half_ulp + half_ulp \<le> 16"
    using Cons.prems(3) by (simp add: algebra_simps)
  have "\<bar>a + x\<bar> \<le> 16" using Cons.prems(1) x s n b half_ulp_pos by linarith
  from fl_error_16 [OF this] have e: "\<bar>float_add a x - (a + x)\<bar> \<le> half_ulp"
    by (simp add: float_add_def)
  have p: "0 \<le> float_add a x" unfolding float_add_def
    using Cons.prems(1) x by (intro fl_nonneg) simp
  have "float_add a x + sum_list xs + of_nat (length xs) * half_ulp \<le> 16"
    using e b by linarith
  from Cons.IH [OF p xs this]
  have "0 \<le> foldl float_add (float_add a x) xs"
    "foldl float_add (float_add a x) xs
       \<le> float_add a x + sum_list xs + of_nat (length xs) * half_ulp" by simp_all
  moreover have "of_nat (length (x # xs)) * half_ulp = of_nat (length xs) * half_ulp + half_ulp"
    by (simp add: algebra_simps)
  ultimately show ?case using e by simp
qed

lemma fst_foldl_neumaier_step:
  "fst (foldl neumaier_step (f, c) xs) = foldl float_add f xs"
  by (induction xs arbitrary: f c) (simp_all add: Let_def)

lemma neumaier_step_compensation:
  assumes "0 \<le> f" "0 \<le> x" "f + x \<le> 15" "\<bar>c\<bar> \<le> 1"
  shows "\<bar>snd (neumaier_step (f, c) x)\<bar> \<le> \<bar>c\<bar> + 4 * half_ulp"
proof -
  note h = half_ulp_pos half_ulp_small
  define t where "t = float_add f x"
  have "\<bar>f + x\<bar> \<le> 16" using assms by linarith
  from fl_error_16 [OF this] have t: "\<bar>t - (f + x)\<bar> \<le> half_ulp"
    by (simp add: t_def float_add_def)
  have t0: "0 \<le> t" unfolding t_def float_add_def using assms by (intro fl_nonneg) simp
  have step: "\<bar>float_add c (float_add (float_sub u t) v)\<bar> \<le> \<bar>c\<bar> + 4 * half_ulp"
    if uv: "u + v = f + x" "0 \<le> u" "0 \<le> v" for u v
  proof -
    have "\<bar>u - t\<bar> \<le> 16" using uv t t0 assms h by linarith
    from fl_error_16 [OF this] have d: "\<bar>float_sub u t - (u - t)\<bar> \<le> half_ulp"
      by (simp add: float_sub_def)
    have dv: "\<bar>float_sub u t + v\<bar> \<le> 2 * half_ulp" using d t uv(1) by linarith
    then have "\<bar>float_sub u t + v\<bar> \<le> 16" using h by linarith
    from fl_error_16 [OF this]
    have "\<bar>float_add (float_sub u t) v - (float_sub u t + v)\<bar> \<le> half_ulp"
      by (simp add: float_add_def)
    with dv have err: "\<bar>float_add (float_sub u t) v\<bar> \<le> 3 * half_ulp" by linarith
    then have "\<bar>c + float_add (float_sub u t) v\<bar> \<le> 16" using assms(4) h by linarith
    from fl_error_16 [OF this]
    have "\<bar>float_add c (float_add (float_sub u t) v) - (c + float_add (float_sub u t) v)\<bar>
            \<le> half_ulp"
      by (simp add: float_add_def)
    with err show ?thesis by linarith
  qed
  show ?thesis
  proof (cases "\<bar>f\<bar> \<ge> \<bar>x\<bar>")
    case True
    then have "snd (neumaier_step (f, c) x) = float_add c (float_add (float_sub f t) x)"
      by (simp add: Let_def t_def)
    with step [of f x] assms show ?thesis by simp
  next
    case False
    then have "snd (neumaier_step (f, c) x) = float_add c (float_add (float_sub x t) f)"
      by (simp add: Let_def t_def)
    with step [of x f] assms show ?thesis by simp
  qed
qed

lemma fst_neumaier_step: "fst (neumaier_step (f, c) x) = float_add f x"
  by (simp add: Let_def)

lemma snd_foldl_neumaier_step_bound:
  assumes "0 \<le> f" and "\<forall>x\<in>set xs. 0 \<le> x"
    and "f + sum_list xs + of_nat (length xs) * half_ulp \<le> 15"
    and "\<bar>c\<bar> + of_nat (length xs) * (4 * half_ulp) \<le> 1"
  shows "\<bar>snd (foldl neumaier_step (f, c) xs)\<bar> \<le> \<bar>c\<bar> + of_nat (length xs) * (4 * half_ulp)"
  using assms
proof (induction xs arbitrary: f c)
  case Nil
  then show ?case by simp
next
  case (Cons x xs)
  note h = half_ulp_pos
  define f' where "f' = float_add f x"
  define c' where "c' = snd (neumaier_step (f, c) x)"
  have st: "neumaier_step (f, c) x = (f', c')"
    unfolding f'_def c'_def using fst_neumaier_step [of f c x] by (metis prod.collapse)
  have x: "0 \<le> x" and xs: "\<forall>y\<in>set xs. 0 \<le> y" using Cons.prems(2) by simp_all
  have s: "0 \<le> sum_list xs" using xs by (simp add: sum_list_nonneg)
  have n: "0 \<le> of_nat (length xs) * half_ulp" using h by simp
  have l: "of_nat (length (x # xs)) * half_ulp = of_nat (length xs) * half_ulp + half_ulp"
    by (simp add: algebra_simps)
  have b: "f + x + sum_list xs + of_nat (length xs) * half_ulp + half_ulp \<le> 15"
    using Cons.prems(3) unfolding l by simp
  have fx: "f + x \<le> 15" using s n b h by linarith
  have c4: "\<bar>c\<bar> + 4 * half_ulp + of_nat (length xs) * (4 * half_ulp) \<le> 1"
    using Cons.prems(4) by (simp add: algebra_simps)
  have c1: "\<bar>c\<bar> \<le> 1" using c4 n h by linarith
  from neumaier_step_compensation [OF Cons.prems(1) x fx c1]
  have c': "\<bar>c'\<bar> \<le> \<bar>c\<bar> + 4 * half_ulp" by (simp add: c'_def)
  have "\<bar>f + x\<bar> \<le> 16" using Cons.prems(1) x fx by linarith
  from fl_error_16 [OF this] have e: "\<bar>f' - (f + x)\<bar> \<le> half_ulp"
    by (simp add: f'_def float_add_def)
  have p: "0 \<le> f'" unfolding f'_def float_add_def
    using Cons.prems(1) x by (intro fl_nonneg) simp
  have b': "f' + sum_list xs + of_nat (length xs) * half_ulp \<le> 15" using e b by linarith
  have c'': "\<bar>c'\<bar> + of_nat (length xs) * (4 * half_ulp) \<le> 1" using c' c4 by linarith
  from Cons.IH [OF p xs b' c'']
  have ih: "\<bar>snd (foldl neumaier_step (f', c') xs)\<bar>
      \<le> \<bar>c'\<bar> + of_nat (length xs) * (4 * half_ulp)" .
  have l4: "of_nat (length (x # xs)) * (4 * half_ulp)
      = of_nat (length xs) * (4 * half_ulp) + 4 * half_ulp"
    by (simp add: algebra_simps)
  have eq: "foldl neumaier_step (f, c) (x # xs) = foldl neumaier_step (f', c') xs"
    by (simp only: foldl_Cons st)
  show ?case unfolding eq l4 using ih c' by linarith
qed

lemma py_sum_bounds:
  assumes "\<forall>x\<in>set xs. 0 \<le> x" and "sum_list xs \<le> 10" and "length xs \<le> 6"
  shows "- (1 / 100000) \<le> py_sum ver xs \<and> py_sum ver xs \<le> 10 + 1 / 100000"
proof (cases xs)
  case Nil
  then show ?thesis by simp
next
  case (Cons x ys)
  note h = half_ulp_pos half_ulp_small
  have len: "(of_nat (length xs) :: rat) \<le> 6" using assms(3) by simp
  then have lh: "of_nat (length xs) * half_ulp \<le> 6 * half_ulp"
    using h(1) by (intro mult_right_mono) simp_all
  then have "0 + sum_list xs + of_nat (length xs) * half_ulp \<le> 16" using assms(2) h by linarith
  from foldl_float_add_bounds [OF _ assms(1) this]
  have pl: "0 \<le> foldl float_add 0 xs" "foldl float_add 0 xs \<le> sum_list xs + 6 * half_ulp"
    using lh by simp_all
  have fo: "foldl float_add 0 xs = foldl float_add (float_add 0 x) ys" by (simp add: Cons)
  show ?thesis
  proof (cases ver)
    case Before_3_12
    then have "py_sum ver xs = foldl float_add 0 xs" by (simp add: Cons)
    with pl assms(2) h show ?thesis by linarith
  next
    case Since_3_12
    define f where "f = foldl float_add (float_add 0 x) ys"
    define c where "c = snd (foldl neumaier_step (float_add 0 x, 0) ys)"
    have fc: "foldl neumaier_step (float_add 0 x, 0) ys = (f, c)"
      unfolding f_def c_def using fst_foldl_neumaier_step [of "float_add 0 x" 0 ys]
      by (metis prod.collapse)
    have x: "0 \<le> x" and ys: "\<forall>y\<in>set ys. 0 \<le> y" using assms(1) by (simp_all add: Cons)
    have s: "0 \<le> sum_list ys" using ys by (simp add: sum_list_nonneg)
    have "\<bar>0 + x\<bar> \<le> 16" using x s assms(2) by (simp add: Cons)
    from fl_error_16 [OF this] have e: "\<bar>float_add 0 x - x\<bar> \<le> half_ulp"
      by (simp add: float_add_def)
    have p: "0 \<le> float_add 0 x" unfolding float_add_def using x by (intro fl_nonneg) simp
    have ly: "(of_nat (length ys) :: rat) \<le> 5" using assms(3) by (simp add: Cons)
    then have lyh: "of_nat (length ys) * half_ulp \<le> 5 * half_ulp"
      "of_nat (length ys) * (4 * half_ulp) \<le> 5 * (4 * half_ulp)"
      using h(1) by (intro mult_right_mono; simp)+
    have sx: "x + sum_list ys \<le> 10" using assms(2) by (simp add: Cons)
    have b: "float_add 0 x + sum_list ys + of_nat (length ys) * half_ulp \<le> 15"
      using e lyh(1) sx h by linarith
    have "\<bar>0::rat\<bar> + of_nat (length ys) * (4 * half_ulp) \<le> 1" using lyh h by linarith
    from snd_foldl_neumaier_step_bound [OF p ys b this]
    have "\<bar>c\<bar> \<le> \<bar>0::rat\<bar> + of_nat (length ys) * (4 * half_ulp)" unfolding c_def .
    then have cb: "\<bar>c\<bar> \<le> 20 * half_ulp" using lyh(2) by linarith
    have fb: "0 \<le> f" "f \<le> sum_list xs + 6 * half_ulp" using pl by (simp_all add: f_def fo)
    have "\<bar>f + c\<bar> \<le> 16" using fb cb assms(2) h by linarith
    from fl_error_16 [OF this] have "\<bar>float_add f c - (f + c)\<bar> \<le> half_ulp"
      by (simp add: float_add_def)
    then have r: "- (1 / 100000) \<le> float_add f c \<and> float_add f c \<le> 10 + 1 / 100000"
      using fb cb assms(2) h by linarith
    have ps: "py_sum ver xs = (if c \<noteq> 0 then float_add f c else f)"
      by (simp add: Since_3_12 Cons fc)
    show ?thesis
    proof (cases "c = 0")
      case True
      then have "py_sum ver xs = f" using ps by simp
      with fb assms(2) h show ?thesis by linarith
    next
      case False
      then have "py_sum ver xs = float_add f c" using ps by simp
      with r show ?thesis by simp
    qed
  qed
qed

lemma rhe_ge: assumes "of_int n - 1 / 2 < x" shows "n \<le> rhe x"
proof -
  have "of_int n - 1 < (of_int (rhe x) :: rat)" using rhe_error [of x] assms by linarith
  then have "(of_int (n - 1) :: rat) < of_int (rhe x)" by simp
  then have "n - 1 < rhe x" by (simp only: of_int_less_iff)
  then show ?thesis by simp
qed

lemma rhe_le: assumes "x < of_int n + 1 / 2" shows "rhe x \<le> n"
proof -
  have "(of_int (rhe x) :: rat) < of_int n + 1" using rhe_error [of x] assms by linarith
  then have "(of_int (rhe x) :: rat) < of_int (n + 1)" by simp
  then have "rhe x < n + 1" by (simp only: of_int_less_iff)
  then show ?thesis by simp
qed

lemma py_round_bounds:
  assumes "- (1 / 100000) \<le> s" and "s \<le> 10 + 1 / 100000"
  shows "0 \<le> py_round s 2 \<and> py_round s 2 \<le> 10"
proof -
  define n where "n = rhe (s * 10 ^ 2)"
  have "of_int 0 - 1 / 2 < s * 10 ^ 2" using assms(1) by simp
  then have n0: "0 \<le> n" unfolding n_def by (rule rhe_ge)
  have "s * 10 ^ 2 < of_int 1000 + 1 / 2" using assms(2) by simp
  then have n1: "n \<le> 1000" unfolding n_def by (rule rhe_le)
  have q0: "(0::rat) \<le> of_int n / 10 ^ 2" using n0 by simp
  have "(of_int n :: rat) \<le> of_int 1000" using n1 by (simp only: of_int_le_iff)
  then have q1: "(of_int n :: rat) / 10 ^ 2 \<le> 10" by simp
  have "fl (of_int n / 10 ^ 2) \<le> fl 10" using q0 q1 by (rule fl_mono_nonneg)
  moreover have "0 \<le> fl (of_int n / 10 ^ 2)" using q0 by (rule fl_nonneg)
  ultimately show ?thesis by (simp add: py_round_def n_def)
qed

text \<open>One step of the compensated sum, without the local binding.\<close>

lemma neumaier_step_eval:
  "neumaier_step (f, c) x =
     (if \<bar>x\<bar> \<le> \<bar>f\<bar>
      then (float_add f x, float_add c (float_add (float_sub f (float_add f x)) x))
      else (float_add f x, float_add c (float_add (float_sub x (float_add f x)) f)))"
  by (simp add: Let_def)

declare neumaier_step.simps [simp del]

text \<open>The terms of a dimension value of 5, their sum and its rounding.\<close>

lemma fl_5 [simp]: "fl 5 = 5"
  by (simp add: fl_eval)

lemma half_marks:
  "fl (5 * fl (1 / 4)) = 5 / 4"
  "fl (5 * fl (1 / 5)) = 1"
  "fl (5 * fl (1 / 10)) = 1 / 2"
  "fl (5 * fl (3 / 20)) = 3 / 4"
  by (simp_all add: fl_eval)

lemma py_round_5: "py_round 5 2 = 5"
  by (simp add: py_round_def fl_eval)

lemma py_sum_half_marks: "py_sum ver [5 / 4, 1, 1 / 2, 3 / 4, 3 / 4, 3 / 4] = 5"
  by (cases ver) (simp_all add: float_add_def float_sub_def neumaier_step_eval fl_eval)

section \<open>Popularity of a repository\<close>

lemma github_popularity_int:
  "github_popularity (PInt n) = Inr
     (if 10000 \<le> n then 10 else if 5000 \<le> n then 9 else if 1000 \<le> n then 8
      else if 500 \<le> n then 7 else if 100 \<le> n then 6 else if 50 \<le> n then 5
      else if 10 \<le> n then 4 else 3)"
  by (simp add: github_popularity_def)

text \<open>
  C2. For an item of kind \<^verbatim>\<open>github\<close> whose star count is the integer \<open>n\<close> (a missing
  \<^verbatim>\<open>stars\<close> field counts as 0), the popularity score is the tier table with inclusive
  lower bounds, the first matching threshold winning: 10 from 10000 stars, 9 from 5000,
  8 from 1000, 7 from 500, 6 from 100, 5 from 50, 4 from 10, and 3 below.
\<close>

theorem repository_popularity_tiers:
  assumes "item ''source'' = Some (PStr ''github'')"
    and "dict_get item ''stars'' (PInt 0) = PInt n"
  shows "calculate_popularity_score item = Inr
     (if 10000 \<le> n then 10 else if 5000 \<le> n then 9 else if 1000 \<le> n then 8
      else if 500 \<le> n then 7 else if 100 \<le> n then 6 else if 50 \<le> n then 5
      else if 10 \<le> n then 4 else 3)"
  using assms by (simp add: calculate_popularity_score_def dict_get_def github_popularity_int)

text \<open>The seven thresholds themselves fall into the higher tier; 9 stars stay at 3.\<close>

theorem repository_popularity_tiers_witness:
  "calculate_popularity_score (repository 10) = Inr 4 \<and>
   calculate_popularity_score (repository 50) = Inr 5 \<and>
   calculate_popularity_score (repository 100) = Inr 6 \<and>
   calculate_popularity_score (repository 500) = Inr 7 \<and>
   calculate_popularity_score (repository 1000) = Inr 8 \<and>
   calculate_popularity_score (repository 5000) = Inr 9 \<and>
   calculate_popularity_score (repository 10000) = Inr 10 \<and>
   calculate_popularity_score (repository 9) = Inr 3"
  using repository_popularity_tiers [of "repository 10" 10]
    repository_popularity_tiers [of "repository 50" 50]
    repository_popularity_tiers [of "repository 100" 100]
    repository_popularity_tiers [of "repository 500" 500]
    repository_popularity_tiers [of "repository 1000" 1000]
    repository_popularity_tiers [of "repository 5000" 5000]
    repository_popularity_tiers [of "repository 10000" 10000]
    repository_popularity_tiers [of "repository 9" 9]
  by (simp add: repository_def dict_get_def)

text \<open>
  C6. The popularity score of a repository is monotonic non-decreasing in the star
  count: two \<^verbatim>\<open>github\<close> items that differ only in their star counts \<open>n \<le> m\<close> both get
  a score, and the score for \<open>n\<close> is at most the score for \<open>m\<close>.
\<close>

theorem popularity_monotone_in_stars:
  assumes "item ''source'' = Some (PStr ''github'')" and "n \<le> m"
  shows "\<exists>p q. calculate_popularity_score (item(''stars'' \<mapsto> PInt n)) = Inr p \<and>
               calculate_popularity_score (item(''stars'' \<mapsto> PInt m)) = Inr q \<and> p \<le> q"
  using assms by (simp add: calculate_popularity_score_def dict_get_def github_popularity_int)

theorem popularity_monotone_in_stars_witness:
  "\<exists>p q. calculate_popularity_score ((repository 0)(''stars'' \<mapsto> PInt 99)) = Inr p \<and>
         calculate_popularity_score ((repository 0)(''stars'' \<mapsto> PInt 100)) = Inr q \<and> p \<le> q"
  using popularity_monotone_in_stars [of "repository 0" 99 100]
  by (simp add: repository_def)

section \<open>The neutral result\<close>

text \<open>An item of unknown kind with an empty bundle: every dimension is 5.0.\<close>

lemma unknown_source_scores:
  assumes "item ''source'' \<noteq> Some (PStr ''github'')"
    and "item ''source'' \<noteq> Some (PStr ''arxiv'')"
  shows "calculate_popularity_score item = Inr 5"
    and "calculate_author_influence_score item = Inr 5"
  using assms
  by (auto simp: calculate_popularity_score_def calculate_author_influence_score_def
      dict_get_def split: option.splits)

lemma weighted_terms_neutral:
  "weighted_terms
     [''popularity'' \<mapsto> PFloat 5, ''technical_innovation'' \<mapsto> PFloat 5,
      ''application_value'' \<mapsto> PFloat 5, ''readability'' \<mapsto> PFloat 5,
      ''experimental_thoroughness'' \<mapsto> PFloat 5, ''author_influence'' \<mapsto> PFloat 5]
     weights =
   Inr [(''popularity'', 5 / 4), (''technical_innovation'', 1), (''application_value'', 1 / 2),
        (''readability'', 3 / 4), (''experimental_thoroughness'', 3 / 4),
        (''author_influence'', 3 / 4)]"
  by (simp add: weights_def float_mul_def half_marks)

lemma unknown_source_result:
  assumes "item ''source'' \<noteq> Some (PStr ''github'')"
    and "item ''source'' \<noteq> Some (PStr ''arxiv'')"
  shows "\<exists>r. calculate_comprehensive_score ver item Map.empty = Inr r \<and>
     individual_scores r =
       [''popularity'' \<mapsto> PFloat 5, ''technical_innovation'' \<mapsto> PFloat 5,
        ''application_value'' \<mapsto> PFloat 5, ''readability'' \<mapsto> PFloat 5,
        ''experimental_thoroughness'' \<mapsto> PFloat 5, ''author_influence'' \<mapsto> PFloat 5] \<and>
     final_score r = 5"
  by (simp add: calculate_comprehensive_score_def unknown_source_scores [where item = item, OF assms]
      dict_get_def weighted_terms_neutral py_sum_half_marks py_round_5)

section \<open>The final score\<close>

lemma calculate_comprehensive_score_Inr:
  assumes "calculate_comprehensive_score ver item llm_scores = Inr r"
  shows "\<exists>popularity author_influence terms.
     calculate_popularity_score item = Inr popularity \<and>
     calculate_author_influence_score item = Inr author_influence \<and>
     individual_scores r =
       [''popularity'' \<mapsto> PFloat popularity,
        ''technical_innovation'' \<mapsto> dict_get llm_scores ''technical_innovation'' (PFloat 5),
        ''application_value'' \<mapsto> dict_get llm_scores ''application_value'' (PFloat 5),
        ''readability'' \<mapsto> dict_get llm_scores ''readability'' (PFloat 5),
        ''experimental_thoroughness'' \<mapsto>
           dict_get llm_scores ''experimental_thoroughness'' (PFloat 5),
        ''author_influence'' \<mapsto> PFloat author_influence] \<and>
     weighted_terms (individual_scores r) weights = Inr terms \<and>
     final_score r = py_round (py_sum ver (map snd terms)) 2 \<and>
     score_breakdown r = map_of (map (\<lambda>(key, p). (key, py_round p 2)) terms)"
  using assms unfolding calculate_comprehensive_score_def Let_def ebind_eq_Inr by auto

lemma float_of_int_small:
  assumes "0 \<le> n" and "n \<le> 10"
  shows "\<exists>x. float_of_int n = Inr x \<and> 0 \<le> x \<and> x \<le> 10"
proof -
  have n: "(0::rat) \<le> of_int n" "(of_int n :: rat) \<le> 10" using assms by simp_all
  have "0 \<le> fl (of_int n)" using n(1) by (rule fl_nonneg)
  moreover have "fl (of_int n) \<le> fl 10" using n by (rule fl_mono_nonneg)
  ultimately show ?thesis by (simp add: float_of_int_def)
qed

lemma py_mul_bounds:
  assumes "within_0_10 v" and "0 \<le> w" and "py_mul v w = Inr p"
  shows "0 \<le> p \<and> p \<le> fl (10 * w)"
proof -
  have *: "0 \<le> fl (x * w) \<and> fl (x * w) \<le> fl (10 * w)" if "0 \<le> x" "x \<le> 10" for x
  proof -
    have "0 \<le> x * w" "x * w \<le> 10 * w" using that assms(2) by (simp_all add: mult_right_mono)
    then show ?thesis by (intro conjI fl_nonneg fl_mono_nonneg)
  qed
  show ?thesis
  proof (cases v)
    case (PFloat x)
    with assms * [of x] show ?thesis by (simp add: float_mul_def)
  next
    case (PInt n)
    with assms(1) float_of_int_small [of n] obtain x
      where "float_of_int n = Inr x" "0 \<le> x" "x \<le> 10" by auto
    with assms(3) PInt * [of x] show ?thesis by (simp add: float_mul_def)
  next
    case (PBool b)
    with assms(3) * [of "of_bool b"] show ?thesis by (simp add: float_mul_def)
  qed (use assms in simp_all)
qed

lemma weighted_terms_bounds:
  assumes "weighted_terms scores ws = Inr terms"
    and "\<forall>(key, w)\<in>set ws. 0 \<le> w \<and> (\<exists>v. scores key = Some v \<and> within_0_10 v)"
  shows "(\<forall>p\<in>set (map snd terms). 0 \<le> p) \<and> length terms = length ws \<and>
         sum_list (map snd terms) \<le> sum_list (map (\<lambda>(key, w). fl (10 * w)) ws)"
  using assms
proof (induction ws arbitrary: terms)
  case Nil
  then show ?case by simp
next
  case (Cons kw ws)
  obtain key w where kw: "kw = (key, w)" by (cases kw)
  from Cons.prems(2) obtain v where v: "scores key = Some v" "within_0_10 v" "0 \<le> w"
    by (auto simp: kw)
  from Cons.prems(1) obtain p ps where p: "py_mul v w = Inr p"
    and ps: "weighted_terms scores ws = Inr ps" and t: "terms = (key, p) # ps"
    by (auto simp: kw v split: sum.splits)
  from py_mul_bounds [OF v(2,3) p] have pb: "0 \<le> p" "p \<le> fl (10 * w)" by simp_all
  from Cons.prems(2) have "\<forall>(key, w)\<in>set ws. 0 \<le> w \<and> (\<exists>v. scores key = Some v \<and> within_0_10 v)"
    by simp
  from Cons.IH [OF ps this] show ?case using pb by (simp add: t kw)
qed

lemma full_marks_total: "sum_list (map (\<lambda>(key, w). fl (10 * w)) weights) = 10"
  by (simp add: weights_def full_marks)

lemma weights_nonneg: "\<forall>(key, w)\<in>set weights. 0 \<le> w"
  by (simp add: weights_def weights_values)

text \<open>
  C1. Whenever the scorer returns a result whose six dimension values are numbers
  between 0 and 10, the final score (the weighted sum under the fixed weight table,
  summed in binary64 by either version of \<^verbatim>\<open>sum\<close> and rounded to 2 decimal places by
  \<^verbatim>\<open>round\<close>) lies between 0 and 10, although the code does not clamp it.
\<close>

theorem final_score_within_0_10:
  assumes "calculate_comprehensive_score ver item llm_scores = Inr r"
    and "\<forall>key\<in>set (map fst weights). \<exists>v. individual_scores r key = Some v \<and> within_0_10 v"
  shows "0 \<le> final_score r \<and> final_score r \<le> 10"
proof -
  from calculate_comprehensive_score_Inr [OF assms(1)] obtain terms
    where t: "weighted_terms (individual_scores r) weights = Inr terms"
      and f: "final_score r = py_round (py_sum ver (map snd terms)) 2" by blast
  have "\<forall>(key, w)\<in>set weights. 0 \<le> w \<and> (\<exists>v. individual_scores r key = Some v \<and> within_0_10 v)"
    using assms(2) weights_nonneg by fastforce
  from weighted_terms_bounds [OF t this]
  have b: "\<forall>p\<in>set (map snd terms). 0 \<le> p" "length (map snd terms) \<le> 6"
    "sum_list (map snd terms) \<le> 10"
    by (simp_all add: full_marks_total) (simp add: weights_def)
  from py_sum_bounds [OF b(1) b(3) b(2)] py_round_bounds show ?thesis unfolding f by blast
qed

theorem final_score_within_0_10_witness:
  "\<exists>r. calculate_comprehensive_score Since_3_12 blog_post Map.empty = Inr r \<and>
       0 \<le> final_score r \<and> final_score r \<le> 10"
proof -
  from unknown_source_result [where item = blog_post and ver = Since_3_12] obtain r where
    r: "calculate_comprehensive_score Since_3_12 blog_post Map.empty = Inr r"
      "individual_scores r =
       [''popularity'' \<mapsto> PFloat 5, ''technical_innovation'' \<mapsto> PFloat 5,
        ''application_value'' \<mapsto> PFloat 5, ''readability'' \<mapsto> PFloat 5,
        ''experimental_thoroughness'' \<mapsto> PFloat 5, ''author_influence'' \<mapsto> PFloat 5]"
    by (auto simp: blog_post_def)
  have "\<forall>key\<in>set (map fst weights). \<exists>v. individual_scores r key = Some v \<and> within_0_10 v"
    by (simp add: r(2) weights_def)
  from final_score_within_0_10 [OF r(1) this] r(1) show ?thesis by blast
qed

section \<open>Items of unknown kind\<close>

text \<open>
  C7. For an item whose \<^verbatim>\<open>source\<close> is neither \<^verbatim>\<open>github\<close> nor \<^verbatim>\<open>arxiv\<close> (or is missing),
  the popularity score and the author influence score are both 5.0; with an empty
  bundle the scorer returns a result whose six individual scores are 5.0 and whose
  final score is exactly 5.0.
\<close>

theorem unknown_source_is_neutral:
  assumes "item ''source'' \<noteq> Some (PStr ''github'')"
    and "item ''source'' \<noteq> Some (PStr ''arxiv'')"
  shows "calculate_popularity_score item = Inr 5 \<and>
         calculate_author_influence_score item = Inr 5 \<and>
         (\<exists>r. calculate_comprehensive_score ver item Map.empty = Inr r \<and>
              (\<forall>key\<in>set (map fst weights). individual_scores r key = Some (PFloat 5)) \<and>
              final_score r = 5)"
proof -
  from unknown_source_result [where item = item and ver = ver, OF assms] obtain r where
    r: "calculate_comprehensive_score ver item Map.empty = Inr r"
      "individual_scores r =
       [''popularity'' \<mapsto> PFloat 5, ''technical_innovation'' \<mapsto> PFloat 5,
        ''application_value'' \<mapsto> PFloat 5, ''readability'' \<mapsto> PFloat 5,
        ''experimental_thoroughness'' \<mapsto> PFloat 5, ''author_influence'' \<mapsto> PFloat 5]"
      "final_score r = 5" by blast
  have "\<forall>key\<in>set (map fst weights). individual_scores r key = Some (PFloat 5)"
    by (simp add: r(2) weights_def)
  with r(1,3) unknown_source_scores [where item = item, OF assms] show ?thesis by blast
qed

theorem unknown_source_is_neutral_witness:
  "calculate_popularity_score blog_post = Inr 5 \<and>
   calculate_author_influence_score blog_post = Inr 5 \<and>
   (\<exists>r. calculate_comprehensive_score Since_3_12 blog_post Map.empty = Inr r \<and>
        (\<forall>key\<in>set (map fst weights). individual_scores r key = Some (PFloat 5)) \<and>
        final_score r = 5)"
  using unknown_source_is_neutral [where item = blog_post and ver = Since_3_12] by (simp add: blog_post_def)

section \<open>Scores of papers and author influence\<close>

text \<open>\<open>str_in\<close> is the substring relation.\<close>

lemma starts_with_iff: "starts_with p s \<longleftrightarrow> (\<exists>t. s = p @ t)"
  by (induction p s rule: starts_with.induct) auto

lemma str_in_iff: "str_in sub s \<longleftrightarrow> (\<exists>pre post. s = pre @ sub @ post)"
proof (induction s)
  case Nil
  then show ?case by auto
next
  case (Cons c cs)
  show ?case
  proof
    assume "str_in sub (c # cs)"
    then consider "starts_with sub (c # cs)" | "str_in sub cs" by auto
    then show "\<exists>pre post. c # cs = pre @ sub @ post"
    proof cases
      case 1
      then obtain t where "c # cs = [] @ sub @ t" by (auto simp: starts_with_iff)
      then show ?thesis by blast
    next
      case 2
      with Cons.IH obtain pre post where "cs = pre @ sub @ post" by blast
      then have "c # cs = (c # pre) @ sub @ post" by simp
      then show ?thesis by blast
    qed
  next
    assume "\<exists>pre post. c # cs = pre @ sub @ post"
    then obtain pre post where e: "c # cs = pre @ sub @ post" by blast
    show "str_in sub (c # cs)"
    proof (cases pre)
      case Nil
      with e have "starts_with sub (c # cs)" by (auto simp: starts_with_iff)
      then show ?thesis by simp
    next
      case (Cons d pre')
      with e have "cs = pre' @ sub @ post" by simp
      with Cons.IH have "str_in sub cs" by blast
      then show ?thesis by simp
    qed
  qed
qed

text \<open>The few doubles these scores can take are exact.\<close>

lemma small_floats:
  "fl 6 = 6" "fl 7 = 7" "fl 8 = 8" "fl (1 / 2) = 1 / 2" "fl (11 / 2) = 11 / 2"
  "fl (15 / 2) = 15 / 2"
  by (simp_all add: fl_eval)

lemma join_strs_map_PStr: "join_strs sep (map PStr names) = Inr (join sep names)"
  by (induction sep names rule: join.induct) simp_all

lemma any_category_map_PStr:
  "any_category (map PStr cats) =
     Inr (\<exists>cat\<in>set cats. str_in ''cs.AI'' cat \<or> str_in ''cs.LG'' cat)"
  by (induction cats) auto

lemma conference_loop_eq:
  "conference_loop confs abstract title =
     (if \<exists>conf\<in>set confs. str_in conf abstract \<or> str_in conf title then 2 else 0)"
  by (induction confs) auto

lemma author_org_loop_eq:
  "author_org_loop orgs author_text score =
     (if \<exists>org\<in>set orgs. str_in org author_text then float_add score 2 else score)"
  by (induction orgs) auto

lemma repo_org_loop_eq:
  "repo_org_loop orgs url description score =
     (if \<exists>org\<in>set orgs. str_in org url \<or> str_in org description
      then float_add score 2 else score)"
  by (induction orgs) auto

text \<open>The three branches, for fields of the types the fetchers deliver.\<close>

lemma arxiv_popularity_value:
  assumes "dict_get item ''abstract'' (PStr '''') = PStr abstract"
    and "dict_get item ''title'' (PStr '''') = PStr title"
    and "dict_get item ''categories'' (PList []) = PList (map PStr categories)"
  shows "arxiv_popularity item = Inr (min
     (5 + (if \<exists>conf\<in>set top_conferences.
                str_in conf (lower abstract) \<or> str_in conf (lower title) then 2 else 0)
        + (if \<exists>cat\<in>set categories. str_in ''cs.AI'' cat \<or> str_in ''cs.LG'' cat
           then 1 else 0)) 10)"
  by (simp add: arxiv_popularity_def assms conference_loop_eq any_category_map_PStr
      float_add_def small_floats)

lemma arxiv_author_influence_value:
  assumes "dict_get item ''authors'' (PList []) = PList (map PStr authors)"
  shows "arxiv_author_influence item 5 = Inr
      (5 + (if \<exists>org\<in>set influential_orgs. str_in org (lower (join '' '' authors))
            then 2 else 0)
         + (if 5 \<le> length authors then 1 else if 3 \<le> length authors then 1 / 2 else 0))"
  by (cases "authors = []")
    (simp_all add: arxiv_author_influence_def assms py_join_def join_strs_map_PStr
      author_org_loop_eq float_add_def small_floats lower_def)

lemma github_author_influence_value:
  assumes "dict_get item ''url'' (PStr '''') = PStr url"
    and "dict_get item ''description'' (PStr '''') = PStr description"
    and "dict_get item ''stars'' (PInt 0) = PInt stars"
  shows "github_author_influence item 5 = Inr
      (5 + (if \<exists>org\<in>set influential_orgs.
                 str_in org (lower url) \<or> str_in org (lower description) then 2 else 0)
         + (if 1000 \<le> stars then 1 else 0))"
  by (simp add: github_author_influence_def assms repo_org_loop_eq float_add_def small_floats)

text \<open>The example paper names no venue but an organization; so does the repository.\<close>

lemma paper_has_no_venue:
  "\<not> (\<exists>conf\<in>set top_conferences.
        str_in conf (lower paper_abstract) \<or> str_in conf (lower paper_title))"
  by code_simp

lemma paper_has_category:
  "\<exists>cat\<in>set [''cs.AI'', ''cs.SE'']. str_in ''cs.AI'' cat \<or> str_in ''cs.LG'' cat"
  by code_simp

lemma paper_has_org:
  "\<exists>org\<in>set influential_orgs. str_in org (lower (join '' '' paper_authors))"
  by code_simp

lemma vscode_has_org:
  "\<exists>org\<in>set influential_orgs.
     str_in org (lower vscode_url) \<or> str_in org (lower vscode_description)"
  by code_simp

text \<open>
  C5. For an item of kind \<^verbatim>\<open>arxiv\<close> with a string abstract and title and a list of
  category strings (a missing field counts as empty), the popularity score is 5.0, plus
  2.0 if some venue acronym is a substring of the lower-cased abstract or title (once,
  whatever the number of matches), plus 1.0 if some category contains \<^verbatim>\<open>cs.AI\<close> or
  \<^verbatim>\<open>cs.LG\<close>, and at most 10.0.
\<close>

theorem paper_popularity:
  assumes "item ''source'' = Some (PStr ''arxiv'')"
    and "dict_get item ''abstract'' (PStr '''') = PStr abstract"
    and "dict_get item ''title'' (PStr '''') = PStr title"
    and "dict_get item ''categories'' (PList []) = PList (map PStr categories)"
  shows "calculate_popularity_score item = Inr (min
     (5 + (if \<exists>conf\<in>set top_conferences.
                str_in conf (lower abstract) \<or> str_in conf (lower title) then 2 else 0)
        + (if \<exists>cat\<in>set categories. str_in ''cs.AI'' cat \<or> str_in ''cs.LG'' cat
           then 1 else 0)) 10)"
  using assms(1) arxiv_popularity_value [OF assms(2-4)]
  by (simp add: calculate_popularity_score_def dict_get_def)

text \<open>Categories \<^verbatim>\<open>cs.AI\<close> and \<^verbatim>\<open>cs.SE\<close> and no venue: 6.0.\<close>

theorem paper_popularity_witness: "calculate_popularity_score paper = Inr 6"
  using paper_popularity [of paper paper_abstract paper_title "[''cs.AI'', ''cs.SE'']"]
    paper_has_no_venue paper_has_category
  by (simp add: paper_def dict_get_def)

text \<open>
  C4. The author influence score starts from 5.0. For an item of kind \<^verbatim>\<open>arxiv\<close> with a
  list of author names it adds 2.0 if some organization fragment is a substring of the
  lower-cased author names joined by single spaces (once), and 1.0 for at least five
  authors, else 0.5 for at least three. For an item of kind \<^verbatim>\<open>github\<close> with a string
  URL and description and an integer star count it adds 2.0 if some fragment is a
  substring of the lower-cased URL or description (once), and 1.0 from 1000 stars. The
  result is at most 10.0 in both cases.
\<close>

theorem author_influence:
  "(item ''source'' = Some (PStr ''arxiv'') \<longrightarrow>
    dict_get item ''authors'' (PList []) = PList (map PStr authors) \<longrightarrow>
    calculate_author_influence_score item = Inr (min
      (5 + (if \<exists>org\<in>set influential_orgs. str_in org (lower (join '' '' authors))
            then 2 else 0)
         + (if 5 \<le> length authors then 1 else if 3 \<le> length authors then 1 / 2 else 0))
      10)) \<and>
   (item ''source'' = Some (PStr ''github'') \<longrightarrow>
    dict_get item ''url'' (PStr '''') = PStr url \<longrightarrow>
    dict_get item ''description'' (PStr '''') = PStr description \<longrightarrow>
    dict_get item ''stars'' (PInt 0) = PInt stars \<longrightarrow>
    calculate_author_influence_score item = Inr (min
      (5 + (if \<exists>org\<in>set influential_orgs.
                 str_in org (lower url) \<or> str_in org (lower description) then 2 else 0)
         + (if 1000 \<le> stars then 1 else 0))
      10))"
proof (intro conjI impI)
  assume s: "item ''source'' = Some (PStr ''arxiv'')"
    and a: "dict_get item ''authors'' (PList []) = PList (map PStr authors)"
  from s arxiv_author_influence_value [OF a]
  show "calculate_author_influence_score item = Inr (min
      (5 + (if \<exists>org\<in>set influential_orgs. str_in org (lower (join '' '' authors))
            then 2 else 0)
         + (if 5 \<le> length authors then 1 else if 3 \<le> length authors then 1 / 2 else 0))
      10)"
    by (simp add: calculate_author_influence_score_def dict_get_def)
next
  assume s: "item ''source'' = Some (PStr ''github'')"
    and u: "dict_get item ''url'' (PStr '''') = PStr url"
    and d: "dict_get item ''description'' (PStr '''') = PStr description"
    and n: "dict_get item ''stars'' (PInt 0) = PInt stars"
  from s github_author_influence_value [OF u d n]
  show "calculate_author_influence_score item = Inr (min
      (5 + (if \<exists>org\<in>set influential_orgs.
                 str_in org (lower url) \<or> str_in org (lower description) then 2 else 0)
         + (if 1000 \<le> stars then 1 else 0))
      10)"
    by (simp add: calculate_author_influence_score_def dict_get_def)
qed

text \<open>Three authors, one at Stanford: 7.5. A repository of Microsoft with 160000 stars: 8.0.\<close>

theorem author_influence_witness:
  "calculate_author_influence_score paper = Inr (15 / 2) \<and>
   calculate_author_influence_score vscode = Inr 8"
proof -
  have "length paper_authors = 3" by (simp add: paper_authors_def)
  with author_influence [of paper paper_authors vscode_url vscode_description 160000]
    paper_has_org
  have "calculate_author_influence_score paper = Inr (15 / 2)"
    by (simp add: paper_def dict_get_def)
  moreover from author_influence [of vscode "[]" vscode_url vscode_description 160000]
    vscode_has_org
  have "calculate_author_influence_score vscode = Inr 8"
    by (simp add: vscode_def dict_get_def)
  ultimately show ?thesis by simp
qed

section \<open>The subjective bundle\<close>

text \<open>
  C9. Scoring an item with the fallback bundle of the summarizer (all four subjective
  keys present with the value 5.0) gives the same outcome, result or exception, as
  scoring it with the empty bundle.
\<close>

theorem fallback_bundle_equals_empty_bundle:
  "calculate_comprehensive_score ver item fallback_scoring =
   calculate_comprehensive_score ver item Map.empty"
  by (simp add: calculate_comprehensive_score_def fallback_scoring_def dict_get_def)

text \<open>The subjective entries of a result are the bundle's values, or the default.\<close>

lemma individual_scores_subjective:
  assumes "calculate_comprehensive_score ver item llm_scores = Inr r"
    and "key \<in> set subjective_dimensions"
  shows "individual_scores r key = Some (dict_get llm_scores key (PFloat 5))"
proof -
  from calculate_comprehensive_score_Inr [OF assms(1)] obtain popularity author_influence where
    "individual_scores r =
       [''popularity'' \<mapsto> PFloat popularity,
        ''technical_innovation'' \<mapsto> dict_get llm_scores ''technical_innovation'' (PFloat 5),
        ''application_value'' \<mapsto> dict_get llm_scores ''application_value'' (PFloat 5),
        ''readability'' \<mapsto> dict_get llm_scores ''readability'' (PFloat 5),
        ''experimental_thoroughness'' \<mapsto>
           dict_get llm_scores ''experimental_thoroughness'' (PFloat 5),
        ''author_influence'' \<mapsto> PFloat author_influence]" by blast
  with assms(2) show ?thesis by (auto simp: subjective_dimensions_def)
qed

text \<open>
  C3. In every result of the scorer, each of the four subjective dimensions holds the
  value the bundle has under that key, and 5.0 when the bundle has no such key; with
  the empty bundle all four are 5.0.
\<close>

theorem missing_bundle_keys_default:
  assumes "calculate_comprehensive_score ver item llm_scores = Inr r"
    and "key \<in> set subjective_dimensions"
  shows "individual_scores r key = Some (case llm_scores key of None \<Rightarrow> PFloat 5 | Some v \<Rightarrow> v) \<and>
         (llm_scores = Map.empty \<longrightarrow> individual_scores r key = Some (PFloat 5))"
  using individual_scores_subjective [OF assms] by (simp add: dict_get_def)

theorem missing_bundle_keys_default_witness:
  "\<exists>r. calculate_comprehensive_score Before_3_12 blog_post Map.empty = Inr r \<and>
       individual_scores r ''technical_innovation'' = Some (PFloat 5) \<and>
       individual_scores r ''application_value'' = Some (PFloat 5) \<and>
       individual_scores r ''readability'' = Some (PFloat 5) \<and>
       individual_scores r ''experimental_thoroughness'' = Some (PFloat 5)"
proof -
  from unknown_source_result [where item = blog_post and ver = Before_3_12] obtain r where
    r: "calculate_comprehensive_score Before_3_12 blog_post Map.empty = Inr r"
    by (auto simp: blog_post_def)
  from missing_bundle_keys_default [OF r, of "''technical_innovation''"]
    missing_bundle_keys_default [OF r, of "''application_value''"]
    missing_bundle_keys_default [OF r, of "''readability''"]
    missing_bundle_keys_default [OF r, of "''experimental_thoroughness''"]
  have "individual_scores r ''technical_innovation'' = Some (PFloat 5) \<and>
       individual_scores r ''application_value'' = Some (PFloat 5) \<and>
       individual_scores r ''readability'' = Some (PFloat 5) \<and>
       individual_scores r ''experimental_thoroughness'' = Some (PFloat 5)"
    by (simp add: subjective_dimensions_def)
  with r show ?thesis by blast
qed

text \<open>The breakdown entry of a key is the rounded term of that key.\<close>

lemma weighted_terms_lookup:
  assumes "weighted_terms scores ws = Inr terms" and "map_of ws key = Some w"
  shows "\<exists>v p. scores key = Some v \<and> py_mul v w = Inr p \<and> map_of terms key = Some p"
  using assms
proof (induction ws arbitrary: terms)
  case Nil
  then show ?case by simp
next
  case (Cons kw ws)
  obtain k u where kw: "kw = (k, u)" by (cases kw)
  from Cons.prems(1) obtain v p ps where v: "scores k = Some v" and p: "py_mul v u = Inr p"
    and ps: "weighted_terms scores ws = Inr ps" and t: "terms = (k, p) # ps"
    by (auto simp: kw split: option.splits sum.splits)
  show ?case
  proof (cases "key = k")
    case True
    with Cons.prems(2) v p show ?thesis by (simp add: kw t)
  next
    case False
    with Cons.prems(2) have "map_of ws key = Some w" by (simp add: kw)
    from Cons.IH [OF ps this] False show ?thesis by (simp add: t)
  qed
qed

lemma overrated_terms:
  "weighted_terms
     [''popularity'' \<mapsto> PFloat 5, ''technical_innovation'' \<mapsto> PFloat 100,
      ''application_value'' \<mapsto> PFloat 5, ''readability'' \<mapsto> PFloat 5,
      ''experimental_thoroughness'' \<mapsto> PFloat 5, ''author_influence'' \<mapsto> PFloat 5]
     weights =
   Inr [(''popularity'', 5 / 4), (''technical_innovation'', 20), (''application_value'', 1 / 2),
        (''readability'', 3 / 4), (''experimental_thoroughness'', 3 / 4),
        (''author_influence'', 3 / 4)]"
proof -
  have "fl (100 * fl (1 / 5)) = 20" by (simp add: fl_eval)
  then show ?thesis by (simp add: weights_def float_mul_def half_marks)
qed

lemma py_sum_overrated: "py_sum ver [5 / 4, 20, 1 / 2, 3 / 4, 3 / 4, 3 / 4] = 24"
  by (cases ver) (simp_all add: float_add_def float_sub_def neumaier_step_eval fl_eval)

lemma py_round_overrated: "py_round 24 2 = 24" "py_round 20 2 = 20"
  by (simp_all add: py_round_def fl_eval)

lemma overrated_result:
  "\<exists>r. calculate_comprehensive_score ver blog_post overrated = Inr r \<and>
       individual_scores r ''technical_innovation'' = Some (PFloat 100) \<and>
       score_breakdown r ''technical_innovation'' = Some 20 \<and>
       final_score r = 24"
proof -
  have "calculate_popularity_score blog_post = Inr 5"
    "calculate_author_influence_score blog_post = Inr 5"
    by (rule unknown_source_scores; simp add: blog_post_def)+
  then show ?thesis
    by (simp add: calculate_comprehensive_score_def overrated_def dict_get_def overrated_terms
        py_sum_overrated py_round_overrated)
qed

text \<open>
  C10. The scorer neither clamps nor validates the bundle: in every result, a
  subjective dimension whose key is present in the bundle holds the supplied value
  itself, and its breakdown entry is the rounded product of that value with the weight.
  A value above the scale carries through to the final score: with 100 for technical
  innovation on an otherwise neutral item the breakdown entry is 20 and the final score
  is 24, above 10.
\<close>

theorem bundle_values_not_clamped:
  "(\<forall>ver item llm_scores r key v.
      calculate_comprehensive_score ver item llm_scores = Inr r \<longrightarrow>
      key \<in> set subjective_dimensions \<longrightarrow> llm_scores key = Some v \<longrightarrow>
      individual_scores r key = Some v \<and>
      (\<exists>w p. map_of weights key = Some w \<and> py_mul v w = Inr p \<and>
             score_breakdown r key = Some (py_round p 2))) \<and>
   (\<forall>ver. \<exists>r. calculate_comprehensive_score ver blog_post overrated = Inr r \<and>
      individual_scores r ''technical_innovation'' = Some (PFloat 100) \<and>
      score_breakdown r ''technical_innovation'' = Some 20 \<and>
      final_score r = 24 \<and> 10 < final_score r)"
proof (intro conjI allI impI)
  fix ver item llm_scores r key v
  assume c: "calculate_comprehensive_score ver item llm_scores = Inr r"
    and k: "key \<in> set subjective_dimensions" and v: "llm_scores key = Some v"
  from calculate_comprehensive_score_Inr [OF c] obtain terms where
    t: "weighted_terms (individual_scores r) weights = Inr terms"
    and b: "score_breakdown r = map_of (map (\<lambda>(key, p). (key, py_round p 2)) terms)"
    by blast
  from individual_scores_subjective [OF c k] v show s: "individual_scores r key = Some v"
    by (simp add: dict_get_def)
  from k obtain w where w: "map_of weights key = Some w"
    by (auto simp: subjective_dimensions_def weights_def)
  from weighted_terms_lookup [OF t w] s obtain p where
    p: "py_mul v w = Inr p" "map_of terms key = Some p" by auto
  have "score_breakdown r key = Some (py_round p 2)"
    unfolding b by (simp add: map_of_map p(2))
  with w p(1)
  show "\<exists>w p. map_of weights key = Some w \<and> py_mul v w = Inr p \<and>
             score_breakdown r key = Some (py_round p 2)" by blast
next
  fix ver
  from overrated_result [of ver] obtain r where
    r: "calculate_comprehensive_score ver blog_post overrated = Inr r"
      "individual_scores r ''technical_innovation'' = Some (PFloat 100)"
      "score_breakdown r ''technical_innovation'' = Some 20"
      "final_score r = 24" by (elim exE conjE)
  from r(4) have "10 < final_score r" by simp
  with r show "\<exists>r. calculate_comprehensive_score ver blog_post overrated = Inr r \<and>
      individual_scores r ''technical_innovation'' = Some (PFloat 100) \<and>
      score_breakdown r ''technical_innovation'' = Some 20 \<and>
      final_score r = 24 \<and> 10 < final_score r" by (intro exI [of _ r] conjI)
qed

theorem bundle_values_not_clamped_witness:
  "\<exists>r. calculate_comprehensive_score Since_3_12 blog_post overrated = Inr r \<and>
       individual_scores r ''technical_innovation'' = Some (PFloat 100) \<and>
       (\<exists>w p. map_of weights ''technical_innovation'' = Some w \<and>
              py_mul (PFloat 100) w = Inr p \<and>
              score_breakdown r ''technical_innovation'' = Some (py_round p 2)) \<and>
       10 < final_score r"
proof -
  note verbatim = bundle_values_not_clamped [THEN conjunct1, rule_format]
  note example = bundle_values_not_clamped [THEN conjunct2, rule_format]
  from example [of Since_3_12] obtain r where
    r: "calculate_comprehensive_score Since_3_12 blog_post overrated = Inr r"
      "10 < final_score r" by (elim exE conjE)
  have k: "''technical_innovation'' \<in> set subjective_dimensions"
    and v: "overrated ''technical_innovation'' = Some (PFloat 100)"
    by (simp_all add: subjective_dimensions_def overrated_def)
  from verbatim [OF r(1) k v] r show ?thesis by (intro exI [of _ r] conjI) simp_all
qed

section \<open>Inputs that raise and inputs that do not\<close>

text \<open>A present field of the right type, or a missing one, reads as a value of the type.\<close>

lemma is_str_E: "is_str v \<Longrightarrow> \<exists>s. v = PStr s"
  by (cases v) simp_all

lemma is_int_E: "is_int v \<Longrightarrow> \<exists>n. v = PInt n"
  by (cases v) simp_all

lemma list_all_is_str: "list_all is_str l \<Longrightarrow> \<exists>ss. l = map PStr ss"
proof (induction l)
  case Nil
  then show ?case by simp
next
  case (Cons v l)
  then obtain s ss where "v = PStr s" "l = map PStr ss" using is_str_E [of v] by auto
  then have "v # l = map PStr (s # ss)" by simp
  then show ?case by (rule exI)
qed

lemma is_str_list_E: "is_str_list v \<Longrightarrow> \<exists>ss. v = PList (map PStr ss)"
  by (cases v) (auto dest: list_all_is_str)

lemma str_field:
  assumes "field_ok is_str d key" shows "\<exists>s. dict_get d key (PStr '''') = PStr s"
  using assms is_str_E by (auto simp: field_ok_def dict_get_def split: option.splits)

lemma int_field:
  assumes "field_ok is_int d key" shows "\<exists>n. dict_get d key (PInt 0) = PInt n"
  using assms is_int_E by (auto simp: field_ok_def dict_get_def split: option.splits)

lemma str_list_field:
  assumes "field_ok is_str_list d key"
  shows "\<exists>ss. dict_get d key (PList []) = PList (map PStr ss)"
proof (cases "d key")
  case None
  then have "dict_get d key (PList []) = PList (map PStr [])" by (simp add: dict_get_def)
  then show ?thesis by (rule exI)
next
  case (Some v)
  with assms is_str_list_E [of v] show ?thesis by (auto simp: field_ok_def dict_get_def)
qed

lemma popularity_returns:
  assumes "well_typed_item item" shows "\<exists>p. calculate_popularity_score item = Inr p"
proof (cases "dict_get item ''source'' (PStr ''unknown'') = PStr ''github''")
  case True
  with assms have "field_ok is_int item ''stars''" by (simp add: well_typed_item_def)
  from int_field [OF this] obtain n where "dict_get item ''stars'' (PInt 0) = PInt n" by blast
  with True show ?thesis by (simp add: calculate_popularity_score_def github_popularity_int)
next
  case github: False
  show ?thesis
  proof (cases "dict_get item ''source'' (PStr ''unknown'') = PStr ''arxiv''")
    case True
    with assms github have "field_ok is_str item ''abstract''" "field_ok is_str item ''title''"
      "field_ok is_str_list item ''categories''" by (simp_all add: well_typed_item_def)
    from str_field [OF this(1)] str_field [OF this(2)] str_list_field [OF this(3)]
    obtain abstract title categories where
      f: "dict_get item ''abstract'' (PStr '''') = PStr abstract"
        "dict_get item ''title'' (PStr '''') = PStr title"
        "dict_get item ''categories'' (PList []) = PList (map PStr categories)" by blast
    from arxiv_popularity_value [OF f] True show ?thesis
      by (simp add: calculate_popularity_score_def)
  next
    case False
    with github show ?thesis by (simp add: calculate_popularity_score_def)
  qed
qed

lemma author_influence_returns:
  assumes "well_typed_item item" shows "\<exists>a. calculate_author_influence_score item = Inr a"
proof (cases "dict_get item ''source'' (PStr ''unknown'') = PStr ''arxiv''")
  case True
  with assms have "field_ok is_str_list item ''authors''" by (simp add: well_typed_item_def)
  from str_list_field [OF this] obtain authors where
    "dict_get item ''authors'' (PList []) = PList (map PStr authors)" by blast
  from arxiv_author_influence_value [OF this] True show ?thesis
    by (simp add: calculate_author_influence_score_def)
next
  case arxiv: False
  show ?thesis
  proof (cases "dict_get item ''source'' (PStr ''unknown'') = PStr ''github''")
    case True
    with assms have "field_ok is_str item ''url''" "field_ok is_str item ''description''"
      "field_ok is_int item ''stars''" by (simp_all add: well_typed_item_def)
    from str_field [OF this(1)] str_field [OF this(2)] int_field [OF this(3)]
    obtain url description n where
      f: "dict_get item ''url'' (PStr '''') = PStr url"
        "dict_get item ''description'' (PStr '''') = PStr description"
        "dict_get item ''stars'' (PInt 0) = PInt n" by blast
    from github_author_influence_value [OF f] True show ?thesis
      by (simp add: calculate_author_influence_score_def)
  next
    case False
    with arxiv show ?thesis by (simp add: calculate_author_influence_score_def)
  qed
qed

text \<open>
  An integer is a number exactly when its conversion returns; every integer up to
  \<open>2 ^ 1023\<close> in magnitude is one.
\<close>

lemma is_number_PInt_iff: "is_number (PInt n) \<longleftrightarrow> (\<exists>x. float_of_int n = Inr x)"
  by (simp add: float_of_int_def not_le)

lemma int_is_number:
  assumes "\<bar>n\<bar> \<le> 2 ^ 1023" shows "is_number (PInt n)"
proof -
  have "(of_int \<bar>n\<bar> :: rat) \<le> of_int (2 ^ 1023)" using assms by (simp only: of_int_le_iff)
  then have a: "\<bar>of_int n :: rat\<bar> \<le> 2 powi 1023" by simp
  from fl_error [OF a] have e: "\<bar>fl (of_int n) - of_int n\<bar> \<le> 2 powi (1023 - 53)" by simp
  have "(2::rat) powi (1023 - 53) < 2 powi 1023" by (intro power_int_strict_increasing) simp_all
  with e a have "\<bar>fl (of_int n)\<bar> < 2 powi 1023 + 2 powi 1023" by linarith
  moreover have "(2::rat) powi 1024 = 2 powi 1 * 2 powi 1023" by (rule two_powi_shift) simp
  ultimately have "\<bar>fl (of_int n)\<bar> < 2 powi 1024" by simp
  then show ?thesis by simp
qed

lemma py_mul_returns:
  assumes "is_number v" shows "\<exists>p. py_mul v w = Inr p"
proof (cases v)
  case (PInt n)
  from assms have "\<exists>x. float_of_int n = Inr x"
    unfolding PInt by (rule is_number_PInt_iff [THEN iffD1])
  then obtain x where "float_of_int n = Inr x" by blast
  then show ?thesis by (simp add: PInt)
qed (use assms in simp_all)

lemma weighted_terms_returns:
  assumes "\<forall>(key, w)\<in>set ws. \<exists>v. scores key = Some v \<and> is_number v"
  shows "\<exists>terms. weighted_terms scores ws = Inr terms"
  using assms
proof (induction ws)
  case Nil
  then show ?case by simp
next
  case (Cons kw ws)
  obtain key w where kw: "kw = (key, w)" by (cases kw)
  from Cons.prems obtain v where v: "scores key = Some v" "is_number v" by (auto simp: kw)
  from py_mul_returns [OF v(2)] obtain p where p: "py_mul v w = Inr p" by blast
  from Cons obtain terms where "weighted_terms scores ws = Inr terms" by auto
  with v p show ?case by (simp add: kw)
qed

lemma bundle_value_is_number:
  assumes "well_typed_bundle llm_scores" and "key \<in> set subjective_dimensions"
  shows "is_number (dict_get llm_scores key (PFloat 5))"
  using assms by (auto simp: well_typed_bundle_def field_ok_def dict_get_def split: option.splits)

text \<open>
  C8, as amended. The scorer returns a result for every item whose fields read on the
  path of its kind, where present, have the types of the data model (for \<^verbatim>\<open>github\<close>
  the URL and description strings and the star count an integer; for \<^verbatim>\<open>arxiv\<close> the
  abstract and title strings and the categories and authors lists of strings; for any
  other kind no condition) and every bundle whose present values under the four keys
  are numbers that convert to a float (floats, booleans, and integers whose conversion
  does not overflow); a missing field takes its default.
\<close>

theorem well_typed_input_returns:
  assumes "well_typed_item item" and "well_typed_bundle llm_scores"
  shows "\<exists>r. calculate_comprehensive_score ver item llm_scores = Inr r"
proof -
  from popularity_returns [OF assms(1)] obtain p
    where p: "calculate_popularity_score item = Inr p" by blast
  from author_influence_returns [OF assms(1)] obtain a
    where a: "calculate_author_influence_score item = Inr a" by blast
  note n = bundle_value_is_number [OF assms(2)]
  have "\<exists>terms. weighted_terms
       [''popularity'' \<mapsto> PFloat p,
        ''technical_innovation'' \<mapsto> dict_get llm_scores ''technical_innovation'' (PFloat 5),
        ''application_value'' \<mapsto> dict_get llm_scores ''application_value'' (PFloat 5),
        ''readability'' \<mapsto> dict_get llm_scores ''readability'' (PFloat 5),
        ''experimental_thoroughness'' \<mapsto>
           dict_get llm_scores ''experimental_thoroughness'' (PFloat 5),
        ''author_influence'' \<mapsto> PFloat a] weights = Inr terms"
    by (rule weighted_terms_returns) (simp add: weights_def n subjective_dimensions_def)
  then show ?thesis by (auto simp: calculate_comprehensive_score_def p a)
qed

theorem well_typed_input_returns_witness:
  "(\<exists>r. calculate_comprehensive_score Since_3_12 vscode github_llm_scores = Inr r) \<and>
   (\<exists>r. calculate_comprehensive_score Before_3_12 paper json_scores = Inr r)"
proof
  have "well_typed_item vscode"
    by (simp add: well_typed_item_def field_ok_def vscode_def dict_get_def)
  moreover have "well_typed_bundle github_llm_scores"
    by (simp add: well_typed_bundle_def field_ok_def github_llm_scores_def
        subjective_dimensions_def)
  ultimately show "\<exists>r. calculate_comprehensive_score Since_3_12 vscode github_llm_scores = Inr r"
    by (rule well_typed_input_returns)
next
  have "list_all is_str (map PStr ss)" for ss by (induction ss) simp_all
  then have "well_typed_item paper"
    by (simp add: well_typed_item_def field_ok_def paper_def dict_get_def)
  moreover have "well_typed_bundle json_scores"
    by (simp add: well_typed_bundle_def field_ok_def json_scores_def
        subjective_dimensions_def small_floats)
  ultimately show "\<exists>r. calculate_comprehensive_score Before_3_12 paper json_scores = Inr r"
    by (rule well_typed_input_returns)
qed

text \<open>
  C8, as stated, fails: a field of another type is not treated as missing. A repository
  whose star count is a string makes the first comparison of the tier chain raise
  \<^verbatim>\<open>TypeError\<close>, and the scorer passes the exception on.
\<close>

theorem malformed_stars_raise:
  "calculate_comprehensive_score Since_3_12 malformed_repository Map.empty = Inl TypeError"
  by (simp add: calculate_comprehensive_score_def calculate_popularity_score_def
      malformed_repository_def dict_get_def github_popularity_def)

end
